theory Spec2Isabelle
  imports Complex_Main "HOL-Library.Product_Lexorder"
begin

section \<open>The Statto bridge: tables and rows\<close>

text \<open>
  The program (\<^verbatim>\<open>statto_bridge.py\<close>) reshapes five tables of one game into a fact table
  with one row per roster entry and a summary table with one row per point. A table is a
  list of rows, a row is a record. A cell that pandas reads as NaN (an empty cell of a
  name column) is \<open>None\<close>; the numeric columns of the inputs are integers, and the
  distances, floating point in the source, are exact rationals here.
\<close>

record player_stats =
  ps_Player :: "string option"
  ps_Points_played :: "string option"

record roster_entry =
  r_Player :: "string option"
  r_Point :: int

record pass_event =
  pe_Point :: int
  pe_Thrower :: "string option"
  pe_Receiver :: "string option"
  pe_Turnover :: int
  pe_Assist :: int
  pe_Secondary_assist :: int
  pe_Huck :: int
  pe_Swing :: int
  pe_Dump :: int
  pe_Forward_distance :: rat

record block_event =
  be_Point :: int
  be_Player :: "string option"

record point_record =
  pt_Point :: int
  pt_Started_on_offense :: int
  pt_Scored :: int
  pt_Our_score_at_pull :: int
  pt_Opp_score_at_pull :: int
  pt_Possessions :: int
  pt_Passes :: int
  pt_Turnovers :: int
  pt_Defensive_blocks :: int

record possession =
  po_Point :: int
  po_Possession :: int
  po_Scored :: int

subsection \<open>Text helpers of the roster expansion and of the point key\<close>

text \<open>\<^verbatim>\<open>str.split(",")\<close>: the pieces between the commas, empty pieces kept.\<close>

fun split_comma :: "string \<Rightarrow> string list" where
  "split_comma [] = [[]]"
| "split_comma (c # cs) =
     (if c = CHR '','' then [] # split_comma cs
      else (case split_comma cs of [] \<Rightarrow> [[c]] | t # ts \<Rightarrow> (c # t) # ts))"

text \<open>\<^verbatim>\<open>str.strip()\<close>, on the ASCII white space (codes 9 to 13 and 28 to 32).\<close>

definition is_space :: "char \<Rightarrow> bool" where
  "is_space c = (let n = (of_char c :: nat) in (9 \<le> n \<and> n \<le> 13) \<or> (28 \<le> n \<and> n \<le> 32))"

definition strip :: "string \<Rightarrow> string" where
  "strip s = rev (dropWhile is_space (rev (dropWhile is_space s)))"

text \<open>\<^verbatim>\<open>str.isdigit()\<close>, on ASCII: not empty and every character one of 0 to 9.\<close>

definition is_digit_char :: "char \<Rightarrow> bool" where
  "is_digit_char c = (let n = (of_char c :: nat) in 48 \<le> n \<and> n \<le> 57)"

definition isdigit :: "string \<Rightarrow> bool" where
  "isdigit s = (s \<noteq> [] \<and> list_all is_digit_char s)"

text \<open>\<^verbatim>\<open>int(token)\<close> on a string of digits: the decimal value, leading zeros allowed.\<close>

definition undigits :: "string \<Rightarrow> nat" where
  "undigits s = foldl (\<lambda>acc c. 10 * acc + ((of_char c :: nat) - 48)) 0 s"

text \<open>The decimal digits of a natural number, as Python prints them.\<close>

definition digit_char :: "nat \<Rightarrow> char" where
  "digit_char d = char_of (48 + d)"

fun digits :: "nat \<Rightarrow> string" where
  "digits n = (if n < 10 then [digit_char n] else digits (n div 10) @ [digit_char (n mod 10)])"

text \<open>
  The format \<^verbatim>\<open>{int(x):02d}\<close>: sign, then zeros up to a width of two characters (the
  sign counts), then the digits.
\<close>

definition format_02d :: "int \<Rightarrow> string" where
  "format_02d x =
     (let s = digits (nat \<bar>x\<bar>);
          sgn = (if x < 0 then ''-'' else [])
      in sgn @ replicate (2 - (length sgn + length s)) CHR ''0'' @ s)"

text \<open>\<^verbatim>\<open>f"{game_id}_P{int(x):02d}"\<close>\<close>

definition point_uid_of :: "string \<Rightarrow> int \<Rightarrow> string" where
  "point_uid_of game_id x = game_id @ ''_P'' @ format_02d x"

subsection \<open>Roster expansion\<close>

text \<open>
  \<^verbatim>\<open>_expand_roster_from_player_stats\<close>: \<^verbatim>\<open>str\<close> of a NaN cell is the text "nan"; an
  empty text is skipped; each token is stripped and kept when it is all digits. The final
  \<^verbatim>\<open>dropna()\<close> removes the rows whose player is NaN.
\<close>

definition py_str :: "string option \<Rightarrow> string" where
  "py_str v = (case v of None \<Rightarrow> ''nan'' | Some s \<Rightarrow> s)"

definition expand_row :: "player_stats \<Rightarrow> roster_entry list" where
  "expand_row row =
     (let raw = py_str (ps_Points_played row)
      in if raw = [] then []
         else map (\<lambda>token. \<lparr>r_Player = ps_Player row, r_Point = int (undigits token)\<rparr>)
                (filter isdigit (map strip (split_comma raw))))"

definition expand_roster_from_player_stats :: "player_stats list \<Rightarrow> roster_entry list" where
  "expand_roster_from_player_stats df_player =
     filter (\<lambda>r. r_Player r \<noteq> None) (concat (map expand_row df_player))"

subsection \<open>Grouping and merging\<close>

text \<open>
  \<^verbatim>\<open>groupby(key, dropna=False)\<close>: one group per key value, NaN keys included. pandas
  returns the groups sorted by key; here they come in the order of the input. The order
  is never observed: every grouped table is only the right-hand side of a merge.
\<close>

definition groupby :: "('a \<Rightarrow> 'k) \<Rightarrow> 'a list \<Rightarrow> ('k \<times> 'a list) list" where
  "groupby key df = map (\<lambda>k. (k, filter (\<lambda>r. key r = k) df)) (remdups (map key df))"

text \<open>
  \<^verbatim>\<open>merge(how="left")\<close>: every left row, in order, once per matching right row, and once
  with nothing on the right when no right row matches.
\<close>

definition matches :: "('b \<Rightarrow> 'k) \<Rightarrow> 'b list \<Rightarrow> 'k \<Rightarrow> 'b option list" where
  "matches kr R k = (case filter (\<lambda>r. kr r = k) R of [] \<Rightarrow> [None] | ms \<Rightarrow> map Some ms)"

definition left_merge :: "('a \<Rightarrow> 'k) \<Rightarrow> ('b \<Rightarrow> 'k) \<Rightarrow> 'a list \<Rightarrow> 'b list \<Rightarrow> ('a \<times> 'b option) list" where
  "left_merge kl kr L R = concat (map (\<lambda>l. map (Pair l) (matches kr R (kl l))) L)"

text \<open>
  \<^verbatim>\<open>merge(how="outer")\<close>: the left merge, then the right rows whose key no left row has.
  (pandas sorts the result by key; see \<open>groupby\<close>.)
\<close>

definition outer_merge ::
  "('a \<Rightarrow> 'k) \<Rightarrow> ('b \<Rightarrow> 'k) \<Rightarrow> 'a list \<Rightarrow> 'b list \<Rightarrow> ('k \<times> 'a option \<times> 'b option) list" where
  "outer_merge kl kr L R =
     map (\<lambda>(l, m). (kl l, Some l, m)) (left_merge kl kr L R)
     @ map (\<lambda>r. (kr r, None, Some r)) (filter (\<lambda>r. kr r \<notin> set (map kl L)) R)"

subsection \<open>Pass aggregation\<close>

type_synonym pkey = "int \<times> string option"

record throw_stats =
  ts_throws :: int
  ts_completions :: int
  ts_turnovers :: int
  ts_assists :: int
  ts_secondary_assists :: int
  ts_hucks :: int
  ts_swings :: int
  ts_dumps :: int
  ts_throw_yards :: rat

record catch_stats =
  cs_catches :: int
  cs_received_yards :: rat
  cs_goals :: int

record action_row =
  a_Point :: int
  a_Player :: "string option"
  a_throws :: int
  a_completions :: int
  a_turnovers :: int
  a_assists :: int
  a_secondary_assists :: int
  a_hucks :: int
  a_swings :: int
  a_dumps :: int
  a_throw_yards :: rat
  a_catches :: int
  a_received_yards :: rat
  a_goals :: int

text \<open>The aggregation \<^verbatim>\<open>"count"\<close> of a column counts its cells that are not NaN.\<close>

definition count_notna :: "('a \<Rightarrow> 'b option) \<Rightarrow> 'a list \<Rightarrow> int" where
  "count_notna col g = int (length (filter (\<lambda>e. col e \<noteq> None) g))"

text \<open>\<^verbatim>\<open>lambda x: int((x == v).sum())\<close>\<close>

definition count_eq :: "('a \<Rightarrow> int) \<Rightarrow> int \<Rightarrow> 'a list \<Rightarrow> int" where
  "count_eq col v g = int (length (filter (\<lambda>e. col e = v) g))"

definition throw_stats_of :: "pass_event list \<Rightarrow> throw_stats" where
  "throw_stats_of g =
     \<lparr>ts_throws = count_notna pe_Thrower g,
      ts_completions = count_eq pe_Turnover 0 g,
      ts_turnovers = count_eq pe_Turnover 1 g,
      ts_assists = sum_list (map pe_Assist g),
      ts_secondary_assists = sum_list (map pe_Secondary_assist g),
      ts_hucks = sum_list (map pe_Huck g),
      ts_swings = sum_list (map pe_Swing g),
      ts_dumps = sum_list (map pe_Dump g),
      ts_throw_yards = sum_list (map pe_Forward_distance g)\<rparr>"

definition catch_stats_of :: "pass_event list \<Rightarrow> catch_stats" where
  "catch_stats_of g =
     \<lparr>cs_catches = count_notna pe_Receiver g,
      cs_received_yards = sum_list (map pe_Forward_distance g),
      cs_goals = count_eq pe_Assist 1 g\<rparr>"

definition throws_table :: "pass_event list \<Rightarrow> (pkey \<times> throw_stats) list" where
  "throws_table df_passes =
     map (\<lambda>(k, g). (k, throw_stats_of g)) (groupby (\<lambda>e. (pe_Point e, pe_Thrower e)) df_passes)"

definition catches_table :: "pass_event list \<Rightarrow> (pkey \<times> catch_stats) list" where
  "catches_table df_passes =
     (let completed = filter (\<lambda>e. pe_Turnover e = 0) df_passes
      in map (\<lambda>(k, g). (k, catch_stats_of g)) (groupby (\<lambda>e. (pe_Point e, pe_Receiver e)) completed))"

text \<open>The row of the outer merge after \<^verbatim>\<open>fillna(0)\<close> and the casts.\<close>

definition action_of :: "pkey \<times> (pkey \<times> throw_stats) option \<times> (pkey \<times> catch_stats) option \<Rightarrow> action_row" where
  "action_of x =
     (case x of (k, t, c) \<Rightarrow>
       \<lparr>a_Point = fst k, a_Player = snd k,
        a_throws = (case t of None \<Rightarrow> 0 | Some u \<Rightarrow> ts_throws (snd u)),
        a_completions = (case t of None \<Rightarrow> 0 | Some u \<Rightarrow> ts_completions (snd u)),
        a_turnovers = (case t of None \<Rightarrow> 0 | Some u \<Rightarrow> ts_turnovers (snd u)),
        a_assists = (case t of None \<Rightarrow> 0 | Some u \<Rightarrow> ts_assists (snd u)),
        a_secondary_assists = (case t of None \<Rightarrow> 0 | Some u \<Rightarrow> ts_secondary_assists (snd u)),
        a_hucks = (case t of None \<Rightarrow> 0 | Some u \<Rightarrow> ts_hucks (snd u)),
        a_swings = (case t of None \<Rightarrow> 0 | Some u \<Rightarrow> ts_swings (snd u)),
        a_dumps = (case t of None \<Rightarrow> 0 | Some u \<Rightarrow> ts_dumps (snd u)),
        a_throw_yards = (case t of None \<Rightarrow> 0 | Some u \<Rightarrow> ts_throw_yards (snd u)),
        a_catches = (case c of None \<Rightarrow> 0 | Some u \<Rightarrow> cs_catches (snd u)),
        a_received_yards = (case c of None \<Rightarrow> 0 | Some u \<Rightarrow> cs_received_yards (snd u)),
        a_goals = (case c of None \<Rightarrow> 0 | Some u \<Rightarrow> cs_goals (snd u))\<rparr>)"

definition aggregate_passes :: "pass_event list \<Rightarrow> action_row list" where
  "aggregate_passes df_passes =
     map action_of (outer_merge fst fst (throws_table df_passes) (catches_table df_passes))"

subsection \<open>Block aggregation\<close>

definition aggregate_blocks :: "block_event list \<Rightarrow> (pkey \<times> int) list" where
  "aggregate_blocks df_blocks =
     (if df_blocks = [] then []
      else map (\<lambda>(k, g). (k, int (length g))) (groupby (\<lambda>b. (be_Point b, be_Player b)) df_blocks))"

subsection \<open>Point context\<close>

record point_context =
  pc_Point :: int
  pc_Started_on_offense :: int
  pc_Scored :: int
  pc_our_score_start :: int
  pc_opp_score_start :: int
  pc_point_possessions_total :: int
  pc_point_passes_total :: int
  pc_point_turnovers_total :: int
  pc_point_blocks_total :: int
  pc_team_line :: "string option"
  pc_point_result :: int
  pc_num_possessions :: int
  pc_first_possession_scored :: int
  pc_any_possession_scored :: int
  pc_clean_hold :: int
  pc_hold :: int
  pc_broken :: int
  pc_break_scored :: int
  pc_break_chance :: int

text \<open>\<^verbatim>\<open>.map({1:"O", 0:"D"})\<close>: any other value gives NaN.\<close>

definition team_line_of :: "int \<Rightarrow> string option" where
  "team_line_of v = (if v = 1 then Some ''O'' else if v = 0 then Some ''D'' else None)"

text \<open>\<^verbatim>\<open>groupby("Point").agg(num_possessions=("Possession", "nunique"))\<close>\<close>

definition possum :: "possession list \<Rightarrow> (int \<times> int) list" where
  "possum df_poss =
     map (\<lambda>(k, g). (k, int (length (remdups (map po_Possession g))))) (groupby po_Point df_poss)"

text \<open>
  \<^verbatim>\<open>sort_values(["Point","Possession"]).groupby("Point").first()\<close>: the sort on two
  columns is stable, and \<open>first\<close> takes the first row of each group.
\<close>

definition first_pos :: "possession list \<Rightarrow> (int \<times> int) list" where
  "first_pos df_poss =
     concat (map (\<lambda>(k, g). case g of [] \<Rightarrow> [] | r # _ \<Rightarrow> [(k, po_Scored r)])
       (groupby po_Point (sort_key (\<lambda>r. (po_Point r, po_Possession r)) df_poss)))"

text \<open>\<^verbatim>\<open>groupby("Point")["Scored?"].max()\<close>\<close>

definition any_pos_scored :: "possession list \<Rightarrow> (int \<times> int) list" where
  "any_pos_scored df_poss =
     concat (map (\<lambda>(k, g). case g of [] \<Rightarrow> [] | r # rs \<Rightarrow> [(k, fold max (map po_Scored rs) (po_Scored r))])
       (groupby po_Point df_poss))"

text \<open>\<^verbatim>\<open>fillna(0)\<close> on a merged column.\<close>

definition fillna0 :: "('k \<times> int) option \<Rightarrow> int" where
  "fillna0 v = (case v of None \<Rightarrow> 0 | Some u \<Rightarrow> snd u)"

definition context_row ::
  "((point_record \<times> (int \<times> int) option) \<times> (int \<times> int) option) \<times> (int \<times> int) option \<Rightarrow> point_context" where
  "context_row x =
     (case x of (((p, n), f), a) \<Rightarrow>
       (let soff = (pt_Started_on_offense p = 1);
            scored = (pt_Scored p = 1);
            num_pos = fillna0 n
        in \<lparr>pc_Point = pt_Point p,
            pc_Started_on_offense = pt_Started_on_offense p,
            pc_Scored = pt_Scored p,
            pc_our_score_start = pt_Our_score_at_pull p,
            pc_opp_score_start = pt_Opp_score_at_pull p,
            pc_point_possessions_total = pt_Possessions p,
            pc_point_passes_total = pt_Passes p,
            pc_point_turnovers_total = pt_Turnovers p,
            pc_point_blocks_total = pt_Defensive_blocks p,
            pc_team_line = team_line_of (pt_Started_on_offense p),
            pc_point_result = pt_Scored p,
            pc_num_possessions = num_pos,
            pc_first_possession_scored = fillna0 f,
            pc_any_possession_scored = fillna0 a,
            pc_clean_hold = of_bool (soff \<and> scored \<and> num_pos = 1),
            pc_hold = of_bool (soff \<and> scored),
            pc_broken = of_bool (soff \<and> \<not> scored),
            pc_break_scored = of_bool (\<not> soff \<and> scored),
            pc_break_chance = of_bool (\<not> soff \<and> num_pos > 0)\<rparr>))"

definition build_point_context_with_possessions :: "point_record list \<Rightarrow> possession list \<Rightarrow> point_context list" where
  "build_point_context_with_possessions df_points df_poss =
     map context_row
       (left_merge (\<lambda>x. pt_Point (fst (fst x))) fst
         (left_merge (\<lambda>x. pt_Point (fst x)) fst
           (left_merge pt_Point fst df_points (possum df_poss))
           (first_pos df_poss))
         (any_pos_scored df_poss))"

subsection \<open>Row assembly\<close>

record pp_row =
  pp_Player :: "string option"
  pp_Point :: int
  pp_throws :: int
  pp_completions :: int
  pp_turnovers :: int
  pp_assists :: int
  pp_secondary_assists :: int
  pp_hucks :: int
  pp_swings :: int
  pp_dumps :: int
  pp_throw_yards :: rat
  pp_catches :: int
  pp_received_yards :: rat
  pp_goals :: int
  pp_blocks :: int
  pp_touches :: int

record fact_row =
  game_id :: string
  point_uid :: string
  team_line :: "string option"
  player :: "string option"
  touches :: int
  throws :: int
  completions :: int
  assists :: int
  secondary_assists :: int
  goals :: int
  turnovers :: int
  blocks :: int
  pulls :: int
  yards_gain_m :: rat
  score_diff_start :: int
  point_result :: int
  num_possessions :: int
  clean_hold :: int
  hold :: int
  broken :: int
  break_scored :: int
  break_chance :: int
  hucks :: int
  swings :: int
  dumps :: int

record summary_row =
  sm_context :: point_context
  sm_game_id :: string
  sm_point_uid :: string

datatype error = IntCastingNaNError

text \<open>The merge key \<^verbatim>\<open>["Point","Player"]\<close> of a roster row and of an action row.\<close>

definition roster_key :: "roster_entry \<Rightarrow> pkey" where
  "roster_key e = (r_Point e, r_Player e)"

definition action_key :: "action_row \<Rightarrow> pkey" where
  "action_key a = (a_Point a, a_Player a)"

text \<open>
  The roster row merged with the actions and the blocks, after \<^verbatim>\<open>fillna(0)\<close> on the
  numeric columns, with \<^verbatim>\<open>touches = throws + catches\<close>.
\<close>

definition pp_row_of :: "(roster_entry \<times> action_row option) \<times> (pkey \<times> int) option \<Rightarrow> pp_row" where
  "pp_row_of x =
     (case x of ((r, a), b) \<Rightarrow>
       (let thr = (case a of None \<Rightarrow> 0 | Some u \<Rightarrow> a_throws u);
            cat = (case a of None \<Rightarrow> 0 | Some u \<Rightarrow> a_catches u)
        in \<lparr>pp_Player = r_Player r, pp_Point = r_Point r,
            pp_throws = thr,
            pp_completions = (case a of None \<Rightarrow> 0 | Some u \<Rightarrow> a_completions u),
            pp_turnovers = (case a of None \<Rightarrow> 0 | Some u \<Rightarrow> a_turnovers u),
            pp_assists = (case a of None \<Rightarrow> 0 | Some u \<Rightarrow> a_assists u),
            pp_secondary_assists = (case a of None \<Rightarrow> 0 | Some u \<Rightarrow> a_secondary_assists u),
            pp_hucks = (case a of None \<Rightarrow> 0 | Some u \<Rightarrow> a_hucks u),
            pp_swings = (case a of None \<Rightarrow> 0 | Some u \<Rightarrow> a_swings u),
            pp_dumps = (case a of None \<Rightarrow> 0 | Some u \<Rightarrow> a_dumps u),
            pp_throw_yards = (case a of None \<Rightarrow> 0 | Some u \<Rightarrow> a_throw_yards u),
            pp_catches = cat,
            pp_received_yards = (case a of None \<Rightarrow> 0 | Some u \<Rightarrow> a_received_yards u),
            pp_goals = (case a of None \<Rightarrow> 0 | Some u \<Rightarrow> a_goals u),
            pp_blocks = fillna0 b,
            pp_touches = thr + cat\<rparr>))"

definition pp_table :: "player_stats list \<Rightarrow> pass_event list \<Rightarrow> block_event list \<Rightarrow> pp_row list" where
  "pp_table df_player df_passes df_blocks =
     (let roster = expand_roster_from_player_stats df_player;
          actions = aggregate_passes df_passes;
          blocks = aggregate_blocks df_blocks
      in map pp_row_of
           (left_merge (\<lambda>x. roster_key (fst x)) fst
             (left_merge roster_key action_key roster actions)
             blocks))"

text \<open>\<^verbatim>\<open>.round(2)\<close>: to the nearest hundredth, a tie to the even one.\<close>

definition round_half_even :: "rat \<Rightarrow> int" where
  "round_half_even y =
     (let f = \<lfloor>y\<rfloor>; d = y - of_int f
      in if d < 1 / 2 then f else if 1 / 2 < d then f + 1 else if even f then f else f + 1)"

definition round2 :: "rat \<Rightarrow> rat" where
  "round2 x = of_int (round_half_even (x * 100)) / 100"

text \<open>
  One row of the final table. The casts \<^verbatim>\<open>.astype(int)\<close> of the context columns raise
  on NaN, that is when the point of the roster row has no row in the points table.
\<close>

definition fact_row_of :: "string \<Rightarrow> pp_row \<times> point_context option \<Rightarrow> fact_row option" where
  "fact_row_of gid x =
     (case x of (q, m) \<Rightarrow>
       (case m of
          None \<Rightarrow> None
        | Some c \<Rightarrow> Some
           \<lparr>game_id = gid,
            point_uid = point_uid_of gid (pp_Point q),
            team_line = pc_team_line c,
            player = pp_Player q,
            touches = pp_touches q,
            throws = pp_throws q,
            completions = pp_completions q,
            assists = pp_assists q,
            secondary_assists = pp_secondary_assists q,
            goals = pp_goals q,
            turnovers = pp_turnovers q,
            blocks = pp_blocks q,
            pulls = 0,
            yards_gain_m = round2 (pp_throw_yards q + pp_received_yards q),
            score_diff_start = pc_our_score_start c - pc_opp_score_start c,
            point_result = pc_point_result c,
            num_possessions = pc_num_possessions c,
            clean_hold = pc_clean_hold c,
            hold = pc_hold c,
            broken = pc_broken c,
            break_scored = pc_break_scored c,
            break_chance = pc_break_chance c,
            hucks = pp_hucks q,
            swings = pp_swings q,
            dumps = pp_dumps q\<rparr>))"

definition summary_row_of :: "string \<Rightarrow> point_context \<Rightarrow> summary_row" where
  "summary_row_of gid c =
     \<lparr>sm_context = c, sm_game_id = gid, sm_point_uid = point_uid_of gid (pc_Point c)\<rparr>"

definition build_per_player_per_point ::
  "player_stats list \<Rightarrow> point_record list \<Rightarrow> pass_event list \<Rightarrow> block_event list \<Rightarrow>
   possession list \<Rightarrow> string \<Rightarrow> error + (fact_row list \<times> summary_row list)" where
  "build_per_player_per_point df_player df_points df_passes df_blocks df_poss gid =
     (let pp = pp_table df_player df_passes df_blocks;
          ctx = build_point_context_with_possessions df_points df_poss
      in case those (map (fact_row_of gid) (left_merge pp_Point pc_Point pp ctx)) of
           None \<Rightarrow> Inl IntCastingNaNError
         | Some rows \<Rightarrow> Inr (rows, map (summary_row_of gid) ctx))"

subsection \<open>Reading the tables\<close>

text \<open>The row of a keyed table for a key, if there is one.\<close>

definition lookup :: "('k \<times> 'v) list \<Rightarrow> 'k \<Rightarrow> ('k \<times> 'v) option" where
  "lookup T k = find (\<lambda>x. fst x = k) T"

text \<open>
  The possession of a point that the specification calls its first: among the rows of the
  point, the first one in the order of the input whose index is the lowest.
\<close>

definition lowest_index_row :: "possession list \<Rightarrow> int \<Rightarrow> possession option" where
  "lowest_index_row df_poss p =
     (let g = filter (\<lambda>r. po_Point r = p) df_poss
      in find (\<lambda>r. po_Possession r = Min (set (map po_Possession g))) g)"

text \<open>Reading a formatted point number back.\<close>

definition unformat :: "string \<Rightarrow> int" where
  "unformat s = (case s of [] \<Rightarrow> 0 | c # cs \<Rightarrow> if c = CHR ''-'' then - int (undigits cs) else int (undigits s))"

text \<open>
  The catches that the pass aggregation holds for a (point, player) key, 0 when it has no
  row for the key.
\<close>

definition catches_of :: "action_row list \<Rightarrow> pkey \<Rightarrow> int" where
  "catches_of actions k = (case find (\<lambda>a. action_key a = k) actions of None \<Rightarrow> 0 | Some a \<Rightarrow> a_catches a)"

text \<open>
  The events a key threw, and the completed events a key received: the groups behind the
  two sides of the pass aggregation.
\<close>

definition thrown_by :: "pass_event list \<Rightarrow> pkey \<Rightarrow> pass_event list" where
  "thrown_by df k = filter (\<lambda>e. (pe_Point e, pe_Thrower e) = k) df"

definition caught_by :: "pass_event list \<Rightarrow> pkey \<Rightarrow> pass_event list" where
  "caught_by df k = filter (\<lambda>e. (pe_Point e, pe_Receiver e) = k) (filter (\<lambda>e. pe_Turnover e = 0) df)"

text \<open>
  A number padded with zeros on the left to a width, as the specification words the point
  key (\<open>zero-padded to two digits\<close>).
\<close>

definition zero_padded :: "nat \<Rightarrow> nat \<Rightarrow> string" where
  "zero_padded w n = replicate (w - length (digits n)) CHR ''0'' @ digits n"

subsection \<open>A small game\<close>

text \<open>
  Three points and three players. Point 1 is a clean hold; point 2 is a break whose two
  possessions are listed out of order; point 3 has no possession rows. Player C is on the
  roster of point 3 without a pass or a block; one token of player B is not a number.
\<close>

definition ex_points :: "point_record list" where
  "ex_points =
     [\<lparr>pt_Point = 1, pt_Started_on_offense = 1, pt_Scored = 1, pt_Our_score_at_pull = 0,
       pt_Opp_score_at_pull = 0, pt_Possessions = 1, pt_Passes = 4, pt_Turnovers = 0,
       pt_Defensive_blocks = 0\<rparr>,
      \<lparr>pt_Point = 2, pt_Started_on_offense = 0, pt_Scored = 1, pt_Our_score_at_pull = 1,
       pt_Opp_score_at_pull = 0, pt_Possessions = 2, pt_Passes = 5, pt_Turnovers = 1,
       pt_Defensive_blocks = 1\<rparr>,
      \<lparr>pt_Point = 3, pt_Started_on_offense = 0, pt_Scored = 1, pt_Our_score_at_pull = 2,
       pt_Opp_score_at_pull = 0, pt_Possessions = 2, pt_Passes = 3, pt_Turnovers = 1,
       pt_Defensive_blocks = 0\<rparr>]"

definition ex_poss :: "possession list" where
  "ex_poss =
     [\<lparr>po_Point = 1, po_Possession = 1, po_Scored = 1\<rparr>,
      \<lparr>po_Point = 2, po_Possession = 2, po_Scored = 1\<rparr>,
      \<lparr>po_Point = 2, po_Possession = 1, po_Scored = 0\<rparr>]"

definition ex_player :: "player_stats list" where
  "ex_player =
     [\<lparr>ps_Player = Some ''A'', ps_Points_played = Some ''1, 3''\<rparr>,
      \<lparr>ps_Player = Some ''B'', ps_Points_played = Some ''3,x, 02''\<rparr>,
      \<lparr>ps_Player = Some ''C'', ps_Points_played = Some ''3''\<rparr>]"

definition ex_pass :: "int \<Rightarrow> string option \<Rightarrow> string option \<Rightarrow> int \<Rightarrow> int \<Rightarrow> pass_event" where
  "ex_pass p t r tv a =
     \<lparr>pe_Point = p, pe_Thrower = t, pe_Receiver = r, pe_Turnover = tv, pe_Assist = a,
      pe_Secondary_assist = 0, pe_Huck = 0, pe_Swing = 0, pe_Dump = 0, pe_Forward_distance = 5 / 2\<rparr>"

definition ex_blocks :: "block_event list" where
  "ex_blocks = [\<lparr>be_Point = 2, be_Player = Some ''B''\<rparr>]"

definition ex_passes :: "pass_event list" where
  "ex_passes = [ex_pass 3 (Some ''B'') (Some ''A'') 0 0, ex_pass 3 (Some ''A'') (Some ''B'') 0 1,
                ex_pass 3 (Some ''A'') None 1 0]"

definition ex_rows :: "fact_row list" where
  "ex_rows = (case build_per_player_per_point ex_player ex_points ex_passes ex_blocks ex_poss ''G'' of
                Inl _ \<Rightarrow> [] | Inr x \<Rightarrow> fst x)"

definition ex_ptsum :: "summary_row list" where
  "ex_ptsum = (case build_per_player_per_point ex_player ex_points ex_passes ex_blocks ex_poss ''G'' of
                Inl _ \<Rightarrow> [] | Inr x \<Rightarrow> snd x)"

section \<open>Properties\<close>

declare digits.simps [simp del]

subsection \<open>Merges and groups\<close>

lemma filter_key_distinct:
  "distinct (map kr R) \<Longrightarrow>
   filter (\<lambda>r. kr r = k) R = (case find (\<lambda>r. kr r = k) R of None \<Rightarrow> [] | Some r \<Rightarrow> [r])"
proof (induction R)
  case Nil
  then show ?case by simp
next
  case (Cons a R)
  have "kr a = k \<Longrightarrow> filter (\<lambda>r. kr r = k) R = []"
  proof -
    assume "kr a = k"
    with Cons.prems have "k \<notin> kr ` set R" by simp
    then show ?thesis by (auto simp: filter_empty_conv)
  qed
  with Cons show ?case by auto
qed

lemma matches_distinct:
  "distinct (map kr R) \<Longrightarrow> matches kr R k = [find (\<lambda>r. kr r = k) R]"
  by (simp add: matches_def filter_key_distinct split: option.split)

lemma left_merge_distinct:
  "distinct (map kr R) \<Longrightarrow> left_merge kl kr L R = map (\<lambda>l. (l, find (\<lambda>r. kr r = kl l) R)) L"
  by (simp add: left_merge_def matches_distinct)

lemma keys_groupby: "map fst (groupby key df) = remdups (map key df)"
  by (simp add: groupby_def comp_def)

lemma find_keyed:
  "find (\<lambda>x. fst x = k) (map (\<lambda>j. (j, F j)) ks) = (if k \<in> set ks then Some (k, F k) else None)"
  by (induction ks) auto

lemma find_groupby:
  "find (\<lambda>x. fst x = k) (map (\<lambda>(j, g). (j, f j g)) (groupby key df))
   = (if k \<in> key ` set df then Some (k, f k (filter (\<lambda>r. key r = k) df)) else None)"
  using find_keyed [of k "\<lambda>j. f j (filter (\<lambda>r. key r = j) df)" "remdups (map key df)"]
  by (simp add: groupby_def comp_def)

lemma groupby_nonempty: "x \<in> set (groupby key df) \<Longrightarrow> snd x \<noteq> []"
  by (auto simp: groupby_def filter_empty_conv)

lemma concat_heads:
  "\<forall>x\<in>set G. snd x \<noteq> [] \<Longrightarrow>
   concat (map (\<lambda>(k, g). case g of [] \<Rightarrow> [] | r # rs \<Rightarrow> [(k, h r rs)]) G)
   = map (\<lambda>(k, g). (k, h (hd g) (tl g))) G"
  by (induction G) (auto split: list.splits)

lemma first_pos_eq:
  "first_pos df_poss =
   map (\<lambda>(k, g). (k, po_Scored (hd g)))
     (groupby po_Point (sort_key (\<lambda>r. (po_Point r, po_Possession r)) df_poss))"
  unfolding first_pos_def
  using concat_heads [of "groupby po_Point (sort_key (\<lambda>r. (po_Point r, po_Possession r)) df_poss)" "\<lambda>r rs. po_Scored r"]
  by (simp add: groupby_nonempty)

lemma any_pos_scored_eq:
  "any_pos_scored df_poss =
   map (\<lambda>(k, g). (k, fold max (map po_Scored (tl g)) (po_Scored (hd g)))) (groupby po_Point df_poss)"
  unfolding any_pos_scored_def
  using concat_heads [of "groupby po_Point df_poss" "\<lambda>r rs. fold max (map po_Scored rs) (po_Scored r)"]
  by (simp add: groupby_nonempty)

lemma keys_possum: "distinct (map fst (possum df_poss))"
  by (simp add: possum_def comp_def case_prod_unfold keys_groupby [unfolded comp_def])

subsection \<open>The point context\<close>

lemma keys_tagged: "map fst (map (\<lambda>(k, g). (k, f k g)) G) = map fst G"
  by (induction G) auto

lemma keys_first_pos: "distinct (map fst (first_pos df_poss))"
  by (simp only: first_pos_eq keys_tagged keys_groupby distinct_remdups)

lemma keys_any_pos_scored: "distinct (map fst (any_pos_scored df_poss))"
  by (simp only: any_pos_scored_eq keys_tagged keys_groupby distinct_remdups)

lemma context_eq:
  "build_point_context_with_possessions df_points df_poss =
   map (\<lambda>p. context_row (((p, lookup (possum df_poss) (pt_Point p)),
                            lookup (first_pos df_poss) (pt_Point p)),
                            lookup (any_pos_scored df_poss) (pt_Point p))) df_points"
  unfolding build_point_context_with_possessions_def lookup_def
  by (simp add: left_merge_distinct keys_possum keys_first_pos keys_any_pos_scored comp_def)

lemma lookup_possum:
  "lookup (possum df_poss) k =
   (if k \<in> po_Point ` set df_poss
    then Some (k, int (length (remdups (map po_Possession (filter (\<lambda>r. po_Point r = k) df_poss)))))
    else None)"
  unfolding lookup_def possum_def by (rule find_groupby)

lemma lookup_first_pos:
  "lookup (first_pos df_poss) k =
   (if k \<in> po_Point ` set df_poss
    then Some (k, po_Scored (hd (filter (\<lambda>r. po_Point r = k)
                 (sort_key (\<lambda>r. (po_Point r, po_Possession r)) df_poss))))
    else None)"
  unfolding lookup_def first_pos_eq
  using find_groupby [of k "\<lambda>j g. po_Scored (hd g)" po_Point "sort_key (\<lambda>r. (po_Point r, po_Possession r)) df_poss"]
  by simp

lemma lookup_any_pos_scored:
  "lookup (any_pos_scored df_poss) k =
   (if k \<in> po_Point ` set df_poss
    then Some (k, fold max (map po_Scored (tl (filter (\<lambda>r. po_Point r = k) df_poss)))
                    (po_Scored (hd (filter (\<lambda>r. po_Point r = k) df_poss))))
    else None)"
  unfolding lookup_def any_pos_scored_eq
  using find_groupby [of k "\<lambda>j g. fold max (map po_Scored (tl g)) (po_Scored (hd g))" po_Point df_poss]
  by simp

lemma context_row_fields:
  "pc_Point (context_row (((p, n), f), a)) = pt_Point p"
  "pc_num_possessions (context_row (((p, n), f), a)) = fillna0 n"
  "pc_first_possession_scored (context_row (((p, n), f), a)) = fillna0 f"
  "pc_any_possession_scored (context_row (((p, n), f), a)) = fillna0 a"
  "pc_clean_hold (context_row (((p, n), f), a))
     = of_bool (pt_Started_on_offense p = 1 \<and> pt_Scored p = 1 \<and> fillna0 n = 1)"
  "pc_hold (context_row (((p, n), f), a)) = of_bool (pt_Started_on_offense p = 1 \<and> pt_Scored p = 1)"
  "pc_broken (context_row (((p, n), f), a)) = of_bool (pt_Started_on_offense p = 1 \<and> pt_Scored p \<noteq> 1)"
  "pc_break_scored (context_row (((p, n), f), a))
     = of_bool (pt_Started_on_offense p \<noteq> 1 \<and> pt_Scored p = 1)"
  "pc_break_chance (context_row (((p, n), f), a))
     = of_bool (pt_Started_on_offense p \<noteq> 1 \<and> 0 < fillna0 n)"
  by (simp_all add: context_row_def Let_def)

lemma context_points: "map pc_Point (build_point_context_with_possessions df_points df_poss) = map pt_Point df_points"
  by (simp add: context_eq context_row_fields comp_def)

text \<open>
  Claim C6. In every row of the point context a clean hold is a hold: \<open>clean_hold = 1\<close>
  implies \<open>hold = 1\<close>.
\<close>

theorem clean_hold_implies_hold:
  "c \<in> set (build_point_context_with_possessions df_points df_poss) \<Longrightarrow> pc_clean_hold c = 1 \<Longrightarrow> pc_hold c = 1"
  by (auto simp: context_eq context_row_fields split: if_splits)

theorem clean_hold_implies_hold_witness:
  "build_point_context_with_possessions ex_points ex_poss ! 0
     \<in> set (build_point_context_with_possessions ex_points ex_poss) \<and>
   pc_clean_hold (build_point_context_with_possessions ex_points ex_poss ! 0) = 1 \<and>
   pc_hold (build_point_context_with_possessions ex_points ex_poss ! 0) = 1"
proof -
  have h1: "build_point_context_with_possessions ex_points ex_poss ! 0
     \<in> set (build_point_context_with_possessions ex_points ex_poss)" by code_simp
  have h2: "pc_clean_hold (build_point_context_with_possessions ex_points ex_poss ! 0) = 1"
    by code_simp
  from clean_hold_implies_hold [OF h1 h2] h1 h2 show ?thesis by simp
qed

text \<open>
  Claim C2. A break that was scored was a break chance, \<open>break_scored = 1\<close> implies
  \<open>break_chance = 1\<close>, for every point that has at least one row in the possessions
  table. (The break chance is read from the number of possessions, which is zero-filled
  for a point without possession rows.)
\<close>

theorem break_scored_implies_break_chance:
  assumes "c \<in> set (build_point_context_with_possessions df_points df_poss)"
    and "pc_Point c \<in> po_Point ` set df_poss"
    and "pc_break_scored c = 1"
  shows "pc_break_chance c = 1"
proof -
  from assms(1) obtain p where p: "p \<in> set df_points"
    and c: "c = context_row (((p, lookup (possum df_poss) (pt_Point p)),
                            lookup (first_pos df_poss) (pt_Point p)),
                            lookup (any_pos_scored df_poss) (pt_Point p))"
    by (auto simp: context_eq)
  from c have pt: "pc_Point c = pt_Point p" by (simp add: context_row_fields)
  with assms(2) obtain r where "r \<in> set df_poss" "po_Point r = pt_Point p" by auto
  then have "filter (\<lambda>r. po_Point r = pt_Point p) df_poss \<noteq> []"
    by (auto simp: filter_empty_conv)
  then have "0 < length (remdups (map po_Possession (filter (\<lambda>r. po_Point r = pt_Point p) df_poss)))"
    by simp
  with assms(2) pt have "0 < fillna0 (lookup (possum df_poss) (pt_Point p))"
    by (simp add: lookup_possum fillna0_def)
  with assms(3) c show ?thesis
    by (simp add: context_row_fields split: if_splits)
qed

theorem break_scored_implies_break_chance_witness:
  "build_point_context_with_possessions ex_points ex_poss ! 1
     \<in> set (build_point_context_with_possessions ex_points ex_poss) \<and>
   pc_Point (build_point_context_with_possessions ex_points ex_poss ! 1) \<in> po_Point ` set ex_poss \<and>
   pc_break_scored (build_point_context_with_possessions ex_points ex_poss ! 1) = 1 \<and>
   pc_break_chance (build_point_context_with_possessions ex_points ex_poss ! 1) = 1"
proof -
  have h1: "build_point_context_with_possessions ex_points ex_poss ! 1
     \<in> set (build_point_context_with_possessions ex_points ex_poss)" by code_simp
  have h2: "pc_Point (build_point_context_with_possessions ex_points ex_poss ! 1) \<in> po_Point ` set ex_poss"
    by code_simp
  have h3: "pc_break_scored (build_point_context_with_possessions ex_points ex_poss ! 1) = 1"
    by code_simp
  from break_scored_implies_break_chance [OF h1 h2 h3] h1 h2 h3 show ?thesis by simp
qed

text \<open>
  The claim C2 as it is written also covers a point without possession rows (here point 1,
  started on defence and scored, in a game whose only possession row is of point 2); there
  the code gives \<open>break_scored = 1\<close> and \<open>break_chance = 0\<close>.
\<close>

theorem break_scored_without_possessions_counterexample:
  "length (build_point_context_with_possessions
      [\<lparr>pt_Point = 1, pt_Started_on_offense = 0, pt_Scored = 1, pt_Our_score_at_pull = 0,
        pt_Opp_score_at_pull = 0, pt_Possessions = 2, pt_Passes = 3, pt_Turnovers = 1,
        pt_Defensive_blocks = 1\<rparr>]
      [\<lparr>po_Point = 2, po_Possession = 1, po_Scored = 1\<rparr>]) = 1 \<and>
   pc_break_scored (hd (build_point_context_with_possessions
      [\<lparr>pt_Point = 1, pt_Started_on_offense = 0, pt_Scored = 1, pt_Our_score_at_pull = 0,
        pt_Opp_score_at_pull = 0, pt_Possessions = 2, pt_Passes = 3, pt_Turnovers = 1,
        pt_Defensive_blocks = 1\<rparr>]
      [\<lparr>po_Point = 2, po_Possession = 1, po_Scored = 1\<rparr>])) = 1 \<and>
   pc_break_chance (hd (build_point_context_with_possessions
      [\<lparr>pt_Point = 1, pt_Started_on_offense = 0, pt_Scored = 1, pt_Our_score_at_pull = 0,
        pt_Opp_score_at_pull = 0, pt_Possessions = 2, pt_Passes = 3, pt_Turnovers = 1,
        pt_Defensive_blocks = 1\<rparr>]
      [\<lparr>po_Point = 2, po_Possession = 1, po_Scored = 1\<rparr>])) = 0"
  by code_simp

lemma find_hd_filter: "filter P xs \<noteq> [] \<Longrightarrow> find P xs = Some (hd (filter P xs))"
  by (induction xs) auto

lemma find_Some_holds: "find P xs = Some x \<Longrightarrow> P x \<and> x \<in> set xs"
  by (induction xs) (auto split: if_splits)

lemma hd_stable_sort:
  fixes f :: "'a \<Rightarrow> 'b::linorder"
  assumes "g \<noteq> []"
  shows "find (\<lambda>y. f y = Min (set (map f g))) g = Some (hd (sort_key f g))"
proof -
  from assms have "sort_key f g \<noteq> []"
    by (metis length_sort length_0_conv)
  then obtain r0 S where S: "sort_key f g = r0 # S"
    by (cases "sort_key f g") auto
  have "sorted (map f (sort_key f g))" by (rule sorted_sort_key)
  with S have le: "\<forall>y\<in>set S. f r0 \<le> f y" by simp
  have sets: "set g = insert r0 (set S)"
    using S by (metis set_sort list.simps(15))
  then have "\<forall>y\<in>set g. f r0 \<le> f y" using le by auto
  moreover have "r0 \<in> set g" using sets by simp
  ultimately have m: "Min (set (map f g)) = f r0"
    by (intro Min_eqI) auto
  have "filter (\<lambda>y. f y = f r0) g = filter (\<lambda>y. f y = f r0) (sort_key f g)"
    by (simp add: sort_key_stable)
  also have "\<dots> = r0 # filter (\<lambda>y. f y = f r0) S" using S by simp
  finally have flt: "filter (\<lambda>y. f y = f r0) g = r0 # filter (\<lambda>y. f y = f r0) S" .
  then have "find (\<lambda>y. f y = f r0) g = Some r0"
    using find_hd_filter [of "\<lambda>y. f y = f r0" g] by simp
  with m S show ?thesis by simp
qed

lemma hd_first_possession:
  assumes "p \<in> po_Point ` set df_poss"
  shows "lowest_index_row df_poss p =
         Some (hd (filter (\<lambda>r. po_Point r = p) (sort_key (\<lambda>r. (po_Point r, po_Possession r)) df_poss)))"
proof -
  let ?g = "filter (\<lambda>r. po_Point r = p) df_poss"
  let ?K = "\<lambda>r. (po_Point r, po_Possession r)"
  from assms have ne: "?g \<noteq> []" by (auto simp: filter_empty_conv)
  have "Min (set (map ?K ?g)) = (p, Min (set (map po_Possession ?g)))"
  proof (rule Min_eqI)
    show "finite (set (map ?K ?g))" by simp
  next
    fix y assume "y \<in> set (map ?K ?g)"
    then obtain r where r: "r \<in> set ?g" "y = ?K r" by auto
    then have "Min (set (map po_Possession ?g)) \<le> po_Possession r" by (intro Min_le) auto
    with r show "(p, Min (set (map po_Possession ?g))) \<le> y" by simp
  next
    from ne have "set (map po_Possession ?g) \<noteq> {}" by (auto simp: filter_empty_conv)
    then have "Min (set (map po_Possession ?g)) \<in> set (map po_Possession ?g)"
      by (intro Min_in) simp_all
    then obtain r where "r \<in> set ?g" "po_Possession r = Min (set (map po_Possession ?g))" by auto
    then show "(p, Min (set (map po_Possession ?g))) \<in> set (map ?K ?g)" by force
  qed
  then have "find (\<lambda>y. ?K y = Min (set (map ?K ?g))) ?g
             = find (\<lambda>r. po_Possession r = Min (set (map po_Possession ?g))) ?g"
    by (intro find_cong) auto
  then show ?thesis
    using hd_stable_sort [OF ne, of ?K] by (simp add: lowest_index_row_def filter_sort)
qed

lemma lowest_index_row_lowest:
  assumes "lowest_index_row df_poss p = Some r"
  shows "r \<in> set df_poss \<and> po_Point r = p \<and>
         (\<forall>r'\<in>set df_poss. po_Point r' = p \<longrightarrow> po_Possession r \<le> po_Possession r')"
proof -
  let ?g = "filter (\<lambda>r. po_Point r = p) df_poss"
  from assms have r: "r \<in> set ?g" "po_Possession r = Min (set (map po_Possession ?g))"
    by (auto simp: lowest_index_row_def Let_def dest: find_Some_holds)
  have "po_Possession r \<le> po_Possession r'" if "r' \<in> set df_poss" "po_Point r' = p" for r'
    unfolding r(2) using that by (intro Min_le) auto
  with r(1) show ?thesis by auto
qed

text \<open>
  Claim C7. For a point with at least one possession row, \<open>first_possession_scored\<close> is
  the scored flag of the possession of lowest index of that point; among rows of equal
  lowest index the stable sort on (point, index) keeps the first of the input.
\<close>

theorem first_possession_scored_lowest_index:
  assumes "c \<in> set (build_point_context_with_possessions df_points df_poss)"
    and "pc_Point c \<in> po_Point ` set df_poss"
  shows "\<exists>r. lowest_index_row df_poss (pc_Point c) = Some r \<and>
             pc_first_possession_scored c = po_Scored r \<and>
             r \<in> set df_poss \<and> po_Point r = pc_Point c \<and>
             (\<forall>r'\<in>set df_poss. po_Point r' = pc_Point c \<longrightarrow> po_Possession r \<le> po_Possession r')"
proof -
  from assms(1) obtain p where c: "c = context_row (((p, lookup (possum df_poss) (pt_Point p)),
                            lookup (first_pos df_poss) (pt_Point p)),
                            lookup (any_pos_scored df_poss) (pt_Point p))"
    by (auto simp: context_eq)
  then have pt: "pc_Point c = pt_Point p" by (simp add: context_row_fields)
  obtain r where r: "lowest_index_row df_poss (pc_Point c) = Some r"
      "r = hd (filter (\<lambda>r. po_Point r = pc_Point c) (sort_key (\<lambda>r. (po_Point r, po_Possession r)) df_poss))"
    using hd_first_possession [OF assms(2)] by simp
  have "pc_first_possession_scored c = po_Scored r"
    using assms(2) r(2) by (simp add: c context_row_fields lookup_first_pos fillna0_def)
  with r(1) lowest_index_row_lowest [OF r(1)] show ?thesis by blast
qed

theorem first_possession_scored_lowest_index_witness:
  "build_point_context_with_possessions ex_points ex_poss ! 1
     \<in> set (build_point_context_with_possessions ex_points ex_poss) \<and>
   pc_Point (build_point_context_with_possessions ex_points ex_poss ! 1) \<in> po_Point ` set ex_poss \<and>
   lowest_index_row ex_poss (pc_Point (build_point_context_with_possessions ex_points ex_poss ! 1))
     = Some \<lparr>po_Point = 2, po_Possession = 1, po_Scored = 0\<rparr> \<and>
   pc_first_possession_scored (build_point_context_with_possessions ex_points ex_poss ! 1) = 0"
proof -
  have h1: "build_point_context_with_possessions ex_points ex_poss ! 1
     \<in> set (build_point_context_with_possessions ex_points ex_poss)" by code_simp
  have h2: "pc_Point (build_point_context_with_possessions ex_points ex_poss ! 1) \<in> po_Point ` set ex_poss"
    by code_simp
  have h3: "lowest_index_row ex_poss (pc_Point (build_point_context_with_possessions ex_points ex_poss ! 1))
     = Some \<lparr>po_Point = 2, po_Possession = 1, po_Scored = 0\<rparr>" by code_simp
  from first_possession_scored_lowest_index [OF h1 h2] h1 h2 h3 show ?thesis by auto
qed

text \<open>
  Claim C5. A point of the points table (present once, the table's key) that has no row
  in the possessions table still gets exactly one context row, with
  \<open>num_possessions\<close>, \<open>first_possession_scored\<close> and \<open>any_possession_scored\<close> all 0.
  The builder has no failing branch.
\<close>

theorem missing_possessions_zero_filled:
  assumes "length (filter (\<lambda>r. pt_Point r = p) df_points) = 1"
    and "p \<notin> po_Point ` set df_poss"
  shows "length (filter (\<lambda>c. pc_Point c = p) (build_point_context_with_possessions df_points df_poss)) = 1 \<and>
         (\<forall>c\<in>set (build_point_context_with_possessions df_points df_poss). pc_Point c = p \<longrightarrow>
            pc_num_possessions c = 0 \<and> pc_first_possession_scored c = 0 \<and> pc_any_possession_scored c = 0)"
proof -
  have "filter (\<lambda>c. pc_Point c = p) (build_point_context_with_possessions df_points df_poss)
        = map (\<lambda>p. context_row (((p, lookup (possum df_poss) (pt_Point p)),
                            lookup (first_pos df_poss) (pt_Point p)),
                            lookup (any_pos_scored df_poss) (pt_Point p)))
            (filter (\<lambda>r. pt_Point r = p) df_points)"
    by (simp add: context_eq filter_map comp_def context_row_fields)
  with assms(1) have one: "length (filter (\<lambda>c. pc_Point c = p) (build_point_context_with_possessions df_points df_poss)) = 1"
    by simp
  have "pc_num_possessions c = 0 \<and> pc_first_possession_scored c = 0 \<and> pc_any_possession_scored c = 0"
    if "c \<in> set (build_point_context_with_possessions df_points df_poss)" "pc_Point c = p" for c
    using that assms(2)
    by (auto simp: context_eq context_row_fields lookup_possum lookup_first_pos lookup_any_pos_scored fillna0_def)
  with one show ?thesis by blast
qed

theorem missing_possessions_zero_filled_witness:
  "length (filter (\<lambda>r. pt_Point r = 3) ex_points) = 1 \<and> 3 \<notin> po_Point ` set ex_poss \<and>
   length (filter (\<lambda>c. pc_Point c = 3) (build_point_context_with_possessions ex_points ex_poss)) = 1 \<and>
   pc_Point (build_point_context_with_possessions ex_points ex_poss ! 2) = 3 \<and>
   pc_num_possessions (build_point_context_with_possessions ex_points ex_poss ! 2) = 0 \<and>
   pc_first_possession_scored (build_point_context_with_possessions ex_points ex_poss ! 2) = 0 \<and>
   pc_any_possession_scored (build_point_context_with_possessions ex_points ex_poss ! 2) = 0"
proof -
  have h1: "length (filter (\<lambda>r. pt_Point r = 3) ex_points) = 1" by code_simp
  have h2: "3 \<notin> po_Point ` set ex_poss" by code_simp
  have h3: "build_point_context_with_possessions ex_points ex_poss ! 2
     \<in> set (build_point_context_with_possessions ex_points ex_poss)" by code_simp
  have h4: "pc_Point (build_point_context_with_possessions ex_points ex_poss ! 2) = 3" by code_simp
  from missing_possessions_zero_filled [OF h1 h2] h1 h2 h3 h4 show ?thesis by blast
qed


subsection \<open>The point key\<close>


lemma of_char_digit_char: "d < 10 \<Longrightarrow> (of_char (digit_char d) :: nat) = 48 + d"
  by (simp add: digit_char_def)

lemma undigits_snoc: "undigits (s @ [c]) = 10 * undigits s + ((of_char c :: nat) - 48)"
  by (simp add: undigits_def)

lemma undigits_digits: "undigits (digits n) = n"
proof (induction n rule: digits.induct)
  case (1 n)
  show ?case
  proof (cases "n < 10")
    case True
    then show ?thesis
      by (subst digits.simps) (simp add: undigits_def of_char_digit_char)
  next
    case False
    with 1 have "undigits (digits (n div 10)) = n div 10" by simp
    with False show ?thesis
      by (subst digits.simps) (simp add: undigits_snoc of_char_digit_char)
  qed
qed

lemma digits_chars: "c \<in> set (digits n) \<Longrightarrow> \<exists>d<10. c = digit_char d"
proof (induction n rule: digits.induct)
  case (1 n)
  show ?case
  proof (cases "n < 10")
    case True
    with 1(2) show ?thesis by (subst (asm) digits.simps) auto
  next
    case False
    from 1(2) have "c \<in> set (digits (n div 10)) \<or> c = digit_char (n mod 10)"
      using False by (subst (asm) digits.simps) auto
    with 1(1) False show ?thesis
      by (metis mod_less_divisor zero_less_numeral)
  qed
qed

lemma digits_nonempty: "digits n \<noteq> []"
  by (subst digits.simps) simp

lemma length_digits_pos: "Suc 0 \<le> length (digits n)"
  by (subst digits.simps) simp

lemma digit_char_not_minus: "d < 10 \<Longrightarrow> digit_char d \<noteq> CHR ''-''"
proof
  assume "d < 10" "digit_char d = CHR ''-''"
  then have "(of_char (digit_char d) :: nat) = of_char CHR ''-''" by simp
  with \<open>d < 10\<close> show False by (simp add: of_char_digit_char)
qed

lemma hd_digits_not_minus: "hd (digits n) \<noteq> CHR ''-''"
  using digits_chars [of "hd (digits n)" n] digits_nonempty [of n] digit_char_not_minus
  by (metis hd_in_set)

lemma undigits_zeros: "undigits (replicate k CHR ''0'' @ s) = undigits s"
  by (induction k) (simp_all add: undigits_def)

lemma unformat_format_02d: "unformat (format_02d x) = x"
proof (cases "x < 0")
  case True
  have "format_02d x = CHR ''-'' # digits (nat \<bar>x\<bar>)"
    using True length_digits_pos [of "nat \<bar>x\<bar>"] by (simp add: format_02d_def Let_def)
  with True show ?thesis by (simp add: unformat_def undigits_digits)
next
  case False
  let ?s = "digits (nat \<bar>x\<bar>)"
  let ?k = "2 - length ?s"
  have f: "format_02d x = replicate ?k CHR ''0'' @ ?s"
    using False by (simp add: format_02d_def Let_def)
  have "hd (replicate ?k CHR ''0'' @ ?s) \<noteq> CHR ''-''"
    using hd_digits_not_minus [of "nat \<bar>x\<bar>"] digits_nonempty [of "nat \<bar>x\<bar>"]
    by (cases ?k) (simp_all add: hd_append)
  moreover have "replicate ?k CHR ''0'' @ ?s \<noteq> []" using digits_nonempty by simp
  ultimately have "unformat (replicate ?k CHR ''0'' @ ?s) = int (undigits (replicate ?k CHR ''0'' @ ?s))"
    by (cases "replicate ?k CHR ''0'' @ ?s") (simp_all add: unformat_def)
  with f False show ?thesis by (simp add: undigits_zeros undigits_digits)
qed

lemma point_uid_of_inject: "point_uid_of gid a = point_uid_of gid b \<Longrightarrow> a = b"
  unfolding point_uid_of_def
  by (metis same_append_eq unformat_format_02d)

lemma format_02d_two_digits:
  assumes "0 \<le> x" "x \<le> 99"
  shows "format_02d x = [digit_char (nat x div 10), digit_char (nat x mod 10)]"
proof (cases "x < 10")
  case True
  then have "nat x < 10" using assms by simp
  then have "digits (nat x) = [digit_char (nat x)]" by (subst digits.simps) simp
  moreover have "digit_char 0 = CHR ''0''" unfolding digit_char_def by code_simp
  ultimately show ?thesis using True assms by (simp add: format_02d_def Let_def)
next
  case False
  then have "nat x div 10 < 10" using assms by simp
  then have "digits (nat x div 10) = [digit_char (nat x div 10)]" by (subst digits.simps) simp
  then have "digits (nat x) = [digit_char (nat x div 10), digit_char (nat x mod 10)]"
    using False assms by (subst digits.simps) simp
  then show ?thesis using assms by (simp add: format_02d_def Let_def)
qed


subsection \<open>The pass aggregation\<close>

lemma action_key_action_of: "action_key (action_of (k, t, c)) = k"
  by (simp add: action_key_def action_of_def)

lemma keys_throws_table: "map fst (throws_table df) = remdups (map (\<lambda>e. (pe_Point e, pe_Thrower e)) df)"
  unfolding throws_table_def by (simp only: keys_tagged keys_groupby)

lemma keys_catches_table:
  "map fst (catches_table df) =
   remdups (map (\<lambda>e. (pe_Point e, pe_Receiver e)) (filter (\<lambda>e. pe_Turnover e = 0) df))"
  unfolding catches_table_def Let_def by (simp only: keys_tagged keys_groupby)

lemma lookup_throws_table:
  "lookup (throws_table df) k =
   (if k \<in> (\<lambda>e. (pe_Point e, pe_Thrower e)) ` set df
    then Some (k, throw_stats_of (filter (\<lambda>e. (pe_Point e, pe_Thrower e) = k) df)) else None)"
  unfolding lookup_def throws_table_def
  using find_groupby [of k "\<lambda>j g. throw_stats_of g" "\<lambda>e. (pe_Point e, pe_Thrower e)" df]
  by simp

lemma lookup_catches_table:
  "lookup (catches_table df) k =
   (if k \<in> (\<lambda>e. (pe_Point e, pe_Receiver e)) ` set (filter (\<lambda>e. pe_Turnover e = 0) df)
    then Some (k, catch_stats_of (filter (\<lambda>e. (pe_Point e, pe_Receiver e) = k)
                 (filter (\<lambda>e. pe_Turnover e = 0) df))) else None)"
  unfolding lookup_def catches_table_def Let_def
  using find_groupby [of k "\<lambda>j g. catch_stats_of g" "\<lambda>e. (pe_Point e, pe_Receiver e)"
      "filter (\<lambda>e. pe_Turnover e = 0) df"]
  by simp

lemma lookup_key: "lookup T k = Some x \<Longrightarrow> fst x = k \<and> x \<in> set T"
  unfolding lookup_def by (auto dest: find_Some_holds)

lemma lookup_None: "lookup T k = None \<longleftrightarrow> k \<notin> fst ` set T"
  unfolding lookup_def by (force simp: find_None_iff)

lemma outer_merge_distinct:
  assumes "distinct (map kr R)"
  shows "outer_merge kl kr L R =
         map (\<lambda>l. (kl l, Some l, find (\<lambda>r. kr r = kl l) R)) L
         @ map (\<lambda>r. (kr r, None, Some r)) (filter (\<lambda>r. kr r \<notin> set (map kl L)) R)"
  by (simp add: outer_merge_def left_merge_distinct [OF assms] comp_def)

lemma aggregate_passes_eq:
  "aggregate_passes df =
   map (\<lambda>t. action_of (fst t, Some t, lookup (catches_table df) (fst t))) (throws_table df)
   @ map (\<lambda>c. action_of (fst c, None, Some c))
       (filter (\<lambda>c. fst c \<notin> set (map fst (throws_table df))) (catches_table df))"
proof -
  have "distinct (map fst (catches_table df))" by (simp add: keys_catches_table)
  then show ?thesis
    by (simp add: aggregate_passes_def outer_merge_distinct lookup_def comp_def)
qed

lemma keys_aggregate_passes: "distinct (map action_key (aggregate_passes df))"
proof -
  have t: "distinct (map fst (throws_table df))" by (simp add: keys_throws_table)
  have c: "distinct (map fst (catches_table df))" by (simp add: keys_catches_table)
  have "map action_key (aggregate_passes df) =
        map fst (throws_table df)
        @ map fst (filter (\<lambda>c. fst c \<notin> set (map fst (throws_table df))) (catches_table df))"
    by (simp add: aggregate_passes_eq comp_def action_key_action_of)
  moreover have "distinct (map fst (filter (\<lambda>c. fst c \<notin> set (map fst (throws_table df))) (catches_table df)))"
    using c by (rule distinct_map_filter)
  ultimately show ?thesis using t by force
qed

lemma find_append: "find P (xs @ ys) = (case find P xs of None \<Rightarrow> find P ys | Some x \<Rightarrow> Some x)"
  by (induction xs) auto

lemma find_map: "find P (map f xs) = map_option f (find (P \<circ> f) xs)"
  by (induction xs) auto

lemma find_filter: "find P (filter Q xs) = find (\<lambda>x. P x \<and> Q x) xs"
  by (induction xs) auto

lemma lookup_aggregate_passes:
  "find (\<lambda>a. action_key a = k) (aggregate_passes df) =
   (if lookup (throws_table df) k = None \<and> lookup (catches_table df) k = None then None
    else Some (action_of (k, lookup (throws_table df) k, lookup (catches_table df) k)))"
proof (cases "lookup (throws_table df) k")
  case None
  then have nk: "k \<notin> set (map fst (throws_table df))" by (simp add: lookup_None)
  have 1: "find (\<lambda>a. action_key a = k)
          (map (\<lambda>t. action_of (fst t, Some t, lookup (catches_table df) (fst t))) (throws_table df)) = None"
    using None by (simp add: find_map comp_def action_key_action_of lookup_def)
  have 2: "find (\<lambda>a. action_key a = k) (map (\<lambda>c. action_of (fst c, None, Some c))
       (filter (\<lambda>c. fst c \<notin> set (map fst (throws_table df))) (catches_table df)))
       = map_option (\<lambda>c. action_of (fst c, None, Some c)) (lookup (catches_table df) k)"
  proof -
    have "find (\<lambda>x. fst x = k \<and> fst x \<notin> set (map fst (throws_table df))) (catches_table df)
          = find (\<lambda>x. fst x = k) (catches_table df)"
      using nk by (intro find_cong) auto
    then show ?thesis
      by (simp add: find_map find_filter comp_def action_key_action_of lookup_def)
  qed
  show ?thesis
  proof (cases "lookup (catches_table df) k")
    case None
    with 1 2 \<open>lookup (throws_table df) k = None\<close> show ?thesis
      by (simp add: aggregate_passes_eq find_append)
  next
    case (Some c)
    then have "fst c = k" by (simp add: lookup_key)
    with Some 1 2 \<open>lookup (throws_table df) k = None\<close> show ?thesis
      by (simp add: aggregate_passes_eq find_append)
  qed
next
  case (Some t)
  then have k: "fst t = k" by (simp add: lookup_key)
  have "find (\<lambda>a. action_key a = k)
          (map (\<lambda>t. action_of (fst t, Some t, lookup (catches_table df) (fst t))) (throws_table df))
        = Some (action_of (k, Some t, lookup (catches_table df) k))"
    using Some k by (simp add: find_map comp_def action_key_action_of lookup_def)
  with Some show ?thesis by (simp add: aggregate_passes_eq find_append)
qed

subsection \<open>The fact table\<close>

lemma keys_aggregate_blocks: "distinct (map fst (aggregate_blocks df_blocks))"
proof (cases "df_blocks = []")
  case True
  then show ?thesis by (simp add: aggregate_blocks_def)
next
  case False
  then have "aggregate_blocks df_blocks =
      map (\<lambda>(k, g). (k, int (length g))) (groupby (\<lambda>b. (be_Point b, be_Player b)) df_blocks)"
    by (simp add: aggregate_blocks_def)
  then show ?thesis by (simp only: keys_tagged keys_groupby distinct_remdups)
qed

lemma pp_table_eq:
  "pp_table df_player df_passes df_blocks =
   map (\<lambda>e. pp_row_of ((e, find (\<lambda>a. action_key a = roster_key e) (aggregate_passes df_passes)),
                          lookup (aggregate_blocks df_blocks) (roster_key e)))
     (expand_roster_from_player_stats df_player)"
  unfolding pp_table_def Let_def lookup_def
  by (simp add: left_merge_distinct keys_aggregate_passes keys_aggregate_blocks comp_def)

lemma pp_row_of_keys:
  "pp_Player (pp_row_of ((e, a), b)) = r_Player e"
  "pp_Point (pp_row_of ((e, a), b)) = r_Point e"
  by (simp_all add: pp_row_of_def Let_def)

lemma those_map:
  "those (map f xs) = (if \<forall>x\<in>set xs. f x \<noteq> None then Some (map (\<lambda>x. the (f x)) xs) else None)"
  by (induction xs) (auto split: option.splits)

lemma Some_in_matches: "Some r \<in> set (matches kr R k) \<longleftrightarrow> r \<in> set R \<and> kr r = k"
proof (cases "filter (\<lambda>r. kr r = k) R")
  case Nil
  then show ?thesis by (auto simp: matches_def filter_empty_conv)
next
  case (Cons a as)
  have "set (matches kr R k) = Some ` set (filter (\<lambda>r. kr r = k) R)"
    by (simp add: matches_def Cons)
  then show ?thesis by auto
qed

lemma None_in_matches: "None \<in> set (matches kr R k) \<longleftrightarrow> k \<notin> kr ` set R"
proof (cases "filter (\<lambda>r. kr r = k) R")
  case Nil
  then show ?thesis by (force simp: matches_def filter_empty_conv)
next
  case (Cons a as)
  then have "a \<in> set (filter (\<lambda>r. kr r = k) R)" by simp
  then have "k \<in> kr ` set R" by auto
  moreover have "None \<notin> set (matches kr R k)" by (auto simp: matches_def Cons)
  ultimately show ?thesis by simp
qed

lemma matches_not_None:
  assumes "k \<in> kr ` set R" and "m \<in> set (matches kr R k)"
  shows "m \<noteq> None"
proof
  assume "m = None"
  with assms(2) have "None \<in> set (matches kr R k)" by simp
  then have "k \<notin> kr ` set R" by (simp add: None_in_matches)
  with assms(1) show False by contradiction
qed

lemma in_left_merge:
  "(l, m) \<in> set (left_merge kl kr L R) \<longleftrightarrow> l \<in> set L \<and> m \<in> set (matches kr R (kl l))"
  by (auto simp: left_merge_def)

lemma fact_row_of_None: "fact_row_of gid (q, m) = None \<longleftrightarrow> m = None"
  by (simp add: fact_row_of_def split: option.split)

lemma roster_points_pp:
  "pp_Point ` set (pp_table df_player df_passes df_blocks)
   = r_Point ` set (expand_roster_from_player_stats df_player)"
  by (simp add: pp_table_eq image_image pp_row_of_keys)

lemma build_eq:
  "build_per_player_per_point df_player df_points df_passes df_blocks df_poss gid =
   (if \<forall>e\<in>set (expand_roster_from_player_stats df_player). r_Point e \<in> pt_Point ` set df_points
    then Inr (map (\<lambda>x. the (fact_row_of gid x))
                (left_merge pp_Point pc_Point (pp_table df_player df_passes df_blocks)
                   (build_point_context_with_possessions df_points df_poss)),
              map (summary_row_of gid) (build_point_context_with_possessions df_points df_poss))
    else Inl IntCastingNaNError)"
proof -
  let ?pp = "pp_table df_player df_passes df_blocks"
  let ?ctx = "build_point_context_with_possessions df_points df_poss"
  have pts: "pc_Point ` set ?ctx = pt_Point ` set df_points"
    using context_points [of df_points df_poss] by (metis set_map)
  have "(\<forall>x\<in>set (left_merge pp_Point pc_Point ?pp ?ctx). fact_row_of gid x \<noteq> None)
        \<longleftrightarrow> (\<forall>q\<in>set ?pp. pp_Point q \<in> pc_Point ` set ?ctx)"
  proof
    assume a: "\<forall>x\<in>set (left_merge pp_Point pc_Point ?pp ?ctx). fact_row_of gid x \<noteq> None"
    show "\<forall>q\<in>set ?pp. pp_Point q \<in> pc_Point ` set ?ctx"
    proof (rule ballI, rule ccontr)
      fix q assume q: "q \<in> set ?pp" and "pp_Point q \<notin> pc_Point ` set ?ctx"
      then have "(q, None) \<in> set (left_merge pp_Point pc_Point ?pp ?ctx)"
        by (simp add: in_left_merge None_in_matches)
      with a have "fact_row_of gid (q, None) \<noteq> None" by blast
      then show False by (simp add: fact_row_of_None)
    qed
  next
    assume b: "\<forall>q\<in>set ?pp. pp_Point q \<in> pc_Point ` set ?ctx"
    show "\<forall>x\<in>set (left_merge pp_Point pc_Point ?pp ?ctx). fact_row_of gid x \<noteq> None"
    proof
      fix x assume x: "x \<in> set (left_merge pp_Point pc_Point ?pp ?ctx)"
      obtain q m where qm: "x = (q, m)" by (cases x)
      with x have "q \<in> set ?pp" "m \<in> set (matches pc_Point ?ctx (pp_Point q))"
        by (simp_all add: in_left_merge)
      with b have "m \<noteq> None" by (intro matches_not_None [of "pp_Point q" pc_Point ?ctx m]) auto
      then show "fact_row_of gid x \<noteq> None" by (simp add: qm fact_row_of_None)
    qed
  qed
  also have "\<dots> \<longleftrightarrow> (\<forall>p\<in>pp_Point ` set ?pp. p \<in> pt_Point ` set df_points)"
    by (simp add: pts)
  also have "\<dots> \<longleftrightarrow> (\<forall>e\<in>set (expand_roster_from_player_stats df_player). r_Point e \<in> pt_Point ` set df_points)"
    by (simp only: roster_points_pp ball_simps)
  finally show ?thesis
    by (simp add: build_per_player_per_point_def Let_def those_map)
qed

lemma fact_row_origin:
  assumes "build_per_player_per_point df_player df_points df_passes df_blocks df_poss gid = Inr (rows, ptsum)"
    and "r \<in> set rows"
  shows "\<exists>e c. e \<in> set (expand_roster_from_player_stats df_player) \<and>
           c \<in> set (build_point_context_with_possessions df_points df_poss) \<and> pc_Point c = r_Point e \<and>
           fact_row_of gid
             (pp_row_of ((e, find (\<lambda>a. action_key a = roster_key e) (aggregate_passes df_passes)),
                          lookup (aggregate_blocks df_blocks) (roster_key e)), Some c) = Some r"
proof -
  let ?pp = "pp_table df_player df_passes df_blocks"
  let ?ctx = "build_point_context_with_possessions df_points df_poss"
  from assms(1) have rows: "rows = map (\<lambda>x. the (fact_row_of gid x)) (left_merge pp_Point pc_Point ?pp ?ctx)"
    and ok: "\<forall>e\<in>set (expand_roster_from_player_stats df_player). r_Point e \<in> pt_Point ` set df_points"
    by (auto simp: build_eq split: if_splits)
  from assms(2) rows obtain q m where qm: "(q, m) \<in> set (left_merge pp_Point pc_Point ?pp ?ctx)"
    and r: "r = the (fact_row_of gid (q, m))" by auto
  from qm have q: "q \<in> set ?pp" and m: "m \<in> set (matches pc_Point ?ctx (pp_Point q))"
    by (simp_all add: in_left_merge)
  from q obtain e where e: "e \<in> set (expand_roster_from_player_stats df_player)"
    and qe: "q = pp_row_of ((e, find (\<lambda>a. action_key a = roster_key e) (aggregate_passes df_passes)),
                          lookup (aggregate_blocks df_blocks) (roster_key e))"
    by (auto simp: pp_table_eq)
  have pts: "pc_Point ` set ?ctx = pt_Point ` set df_points"
    using context_points [of df_points df_poss] by (metis set_map)
  from ok e have "pp_Point q \<in> pc_Point ` set ?ctx" by (simp add: pts qe pp_row_of_keys)
  with m have "m \<noteq> None" by (intro matches_not_None [of "pp_Point q" pc_Point ?ctx m])
  then obtain c where c: "m = Some c" by auto
  with m have "c \<in> set ?ctx" "pc_Point c = pp_Point q" by (simp_all add: Some_in_matches)
  moreover have "fact_row_of gid (q, Some c) = Some r"
    using r c by (simp add: fact_row_of_def)
  ultimately show ?thesis using e qe by (auto simp: pp_row_of_keys)
qed

lemma ex_build:
  "build_per_player_per_point ex_player ex_points ex_passes ex_blocks ex_poss ''G'' = Inr (ex_rows, ex_ptsum)"
  by code_simp

lemma fact_row_fields:
  assumes "fact_row_of gid (q, Some c) = Some r"
  shows "player r = pp_Player q" "point_uid r = point_uid_of gid (pp_Point q)"
    "touches r = pp_touches q" "throws r = pp_throws q" "completions r = pp_completions q"
    "assists r = pp_assists q" "secondary_assists r = pp_secondary_assists q"
    "goals r = pp_goals q" "turnovers r = pp_turnovers q" "blocks r = pp_blocks q"
    "yards_gain_m r = round2 (pp_throw_yards q + pp_received_yards q)"
    "hucks r = pp_hucks q" "swings r = pp_swings q" "dumps r = pp_dumps q"
  using assms by (auto simp: fact_row_of_def)

lemma pp_row_of_fields:
  "pp_throws (pp_row_of ((e, a), b)) = (case a of None \<Rightarrow> 0 | Some u \<Rightarrow> a_throws u)"
  "pp_completions (pp_row_of ((e, a), b)) = (case a of None \<Rightarrow> 0 | Some u \<Rightarrow> a_completions u)"
  "pp_turnovers (pp_row_of ((e, a), b)) = (case a of None \<Rightarrow> 0 | Some u \<Rightarrow> a_turnovers u)"
  "pp_assists (pp_row_of ((e, a), b)) = (case a of None \<Rightarrow> 0 | Some u \<Rightarrow> a_assists u)"
  "pp_secondary_assists (pp_row_of ((e, a), b)) = (case a of None \<Rightarrow> 0 | Some u \<Rightarrow> a_secondary_assists u)"
  "pp_hucks (pp_row_of ((e, a), b)) = (case a of None \<Rightarrow> 0 | Some u \<Rightarrow> a_hucks u)"
  "pp_swings (pp_row_of ((e, a), b)) = (case a of None \<Rightarrow> 0 | Some u \<Rightarrow> a_swings u)"
  "pp_dumps (pp_row_of ((e, a), b)) = (case a of None \<Rightarrow> 0 | Some u \<Rightarrow> a_dumps u)"
  "pp_throw_yards (pp_row_of ((e, a), b)) = (case a of None \<Rightarrow> 0 | Some u \<Rightarrow> a_throw_yards u)"
  "pp_catches (pp_row_of ((e, a), b)) = (case a of None \<Rightarrow> 0 | Some u \<Rightarrow> a_catches u)"
  "pp_received_yards (pp_row_of ((e, a), b)) = (case a of None \<Rightarrow> 0 | Some u \<Rightarrow> a_received_yards u)"
  "pp_goals (pp_row_of ((e, a), b)) = (case a of None \<Rightarrow> 0 | Some u \<Rightarrow> a_goals u)"
  "pp_blocks (pp_row_of ((e, a), b)) = fillna0 b"
  "pp_touches (pp_row_of ((e, a), b)) =
     (case a of None \<Rightarrow> 0 | Some u \<Rightarrow> a_throws u) + (case a of None \<Rightarrow> 0 | Some u \<Rightarrow> a_catches u)"
  by (simp_all add: pp_row_of_def Let_def)

text \<open>
  Claim C1. In every row of the fact table, \<open>touches\<close> is \<open>throws\<close> plus the catches
  that the pass aggregation holds for the row's point and player (0 when it holds none).
  The row's point is the one its \<open>point_uid\<close> is formatted from.
\<close>

theorem touches_throws_plus_catches:
  assumes "build_per_player_per_point df_player df_points df_passes df_blocks df_poss gid = Inr (rows, ptsum)"
    and "r \<in> set rows"
    and "point_uid r = point_uid_of gid pt"
  shows "touches r = throws r + catches_of (aggregate_passes df_passes) (pt, player r)"
proof -
  from fact_row_origin [OF assms(1,2)] obtain e c where
    f: "fact_row_of gid
             (pp_row_of ((e, find (\<lambda>a. action_key a = roster_key e) (aggregate_passes df_passes)),
                          lookup (aggregate_blocks df_blocks) (roster_key e)), Some c) = Some r"
    by blast
  note flds = fact_row_fields [OF f]
  from flds(2) assms(3) have "pt = r_Point e"
    by (simp add: pp_row_of_keys) (metis point_uid_of_inject)
  moreover from flds(1) have "player r = r_Player e" by (simp add: pp_row_of_keys)
  ultimately have "roster_key e = (pt, player r)" by (simp add: roster_key_def)
  then show ?thesis
    by (simp add: flds(3,4) pp_row_of_fields catches_of_def)
qed

theorem touches_throws_plus_catches_witness:
  "build_per_player_per_point ex_player ex_points ex_passes ex_blocks ex_poss ''G'' = Inr (ex_rows, ex_ptsum) \<and>
   ex_rows ! 2 \<in> set ex_rows \<and> point_uid (ex_rows ! 2) = point_uid_of ''G'' 3 \<and>
   player (ex_rows ! 2) = Some ''B'' \<and>
   touches (ex_rows ! 2) = throws (ex_rows ! 2) + catches_of (aggregate_passes ex_passes) (3, Some ''B'') \<and>
   touches (ex_rows ! 2) = 2"
proof -
  have h2: "ex_rows ! 2 \<in> set ex_rows" by code_simp
  have h3: "point_uid (ex_rows ! 2) = point_uid_of ''G'' 3" by code_simp
  have h4: "player (ex_rows ! 2) = Some ''B''" by code_simp
  have h5: "touches (ex_rows ! 2) = 2" by code_simp
  from touches_throws_plus_catches [OF ex_build h2 h3] ex_build h2 h3 h4 h5 show ?thesis by simp
qed






subsection \<open>Point keys, the roster round trip, and the throwing counts\<close>

lemma format_02d_zero_padded: "0 \<le> x \<Longrightarrow> format_02d x = zero_padded 2 (nat x)"
  by (simp add: format_02d_def zero_padded_def Let_def)

lemma roster_points_nonneg: "e \<in> set (expand_roster_from_player_stats df_player) \<Longrightarrow> 0 \<le> r_Point e"
  by (auto simp: expand_roster_from_player_stats_def expand_row_def Let_def split: if_splits)

lemma summary_uids:
  "map sm_point_uid (map (summary_row_of gid) (build_point_context_with_possessions df_points df_poss))
   = map (\<lambda>p. point_uid_of gid (pt_Point p)) df_points"
proof -
  have "map sm_point_uid (map (summary_row_of gid) (build_point_context_with_possessions df_points df_poss))
        = map (point_uid_of gid) (map pc_Point (build_point_context_with_possessions df_points df_poss))"
    by (simp add: summary_row_of_def comp_def)
  then show ?thesis by (simp add: context_points comp_def)
qed

text \<open>
  Claim C9. The \<open>point_uid\<close> of every fact row and of every summary row is the game id,
  then \<open>_P\<close>, then the point number padded with zeros to two digits; and when the point
  numbers of the points table are distinct, so are the \<open>point_uid\<close>s of the summary.
\<close>

theorem point_uid_format_and_distinct:
  assumes "build_per_player_per_point df_player df_points df_passes df_blocks df_poss gid = Inr (rows, ptsum)"
  shows "(\<forall>r\<in>set rows. \<exists>e\<in>set (expand_roster_from_player_stats df_player).
            player r = r_Player e \<and> point_uid r = gid @ ''_P'' @ zero_padded 2 (nat (r_Point e))) \<and>
         (\<forall>s\<in>set ptsum. 0 \<le> pc_Point (sm_context s) \<longrightarrow>
            sm_point_uid s = gid @ ''_P'' @ zero_padded 2 (nat (pc_Point (sm_context s)))) \<and>
         (distinct (map pt_Point df_points) \<longrightarrow> distinct (map sm_point_uid ptsum))"
proof (intro conjI ballI impI)
  fix r assume "r \<in> set rows"
  from fact_row_origin [OF assms this] obtain e c where
    e: "e \<in> set (expand_roster_from_player_stats df_player)" and
    f: "fact_row_of gid
             (pp_row_of ((e, find (\<lambda>a. action_key a = roster_key e) (aggregate_passes df_passes)),
                          lookup (aggregate_blocks df_blocks) (roster_key e)), Some c) = Some r"
    by blast
  note flds = fact_row_fields(1,2) [OF f]
  from flds e have "player r = r_Player e \<and> point_uid r = gid @ ''_P'' @ zero_padded 2 (nat (r_Point e))"
    by (simp add: pp_row_of_keys point_uid_of_def format_02d_zero_padded roster_points_nonneg)
  with e show "\<exists>e\<in>set (expand_roster_from_player_stats df_player).
            player r = r_Player e \<and> point_uid r = gid @ ''_P'' @ zero_padded 2 (nat (r_Point e))"
    by blast
next
  from assms have ptsum: "ptsum = map (summary_row_of gid) (build_point_context_with_possessions df_points df_poss)"
    by (auto simp: build_eq split: if_splits)
  {
    fix s assume "s \<in> set ptsum" "0 \<le> pc_Point (sm_context s)"
    then show "sm_point_uid s = gid @ ''_P'' @ zero_padded 2 (nat (pc_Point (sm_context s)))"
      by (auto simp: ptsum summary_row_of_def point_uid_of_def format_02d_zero_padded)
  }
  {
    assume d: "distinct (map pt_Point df_points)"
    have "inj_on (point_uid_of gid) (set (map pt_Point df_points))"
      by (rule inj_onI) (rule point_uid_of_inject)
    with d have "distinct (map (point_uid_of gid) (map pt_Point df_points))"
      by (simp only: distinct_map) 
    then have "distinct (map (\<lambda>p. point_uid_of gid (pt_Point p)) df_points)"
      by (simp add: comp_def)
    then show "distinct (map sm_point_uid ptsum)"
      unfolding ptsum by (simp only: summary_uids)
  }
qed

theorem point_uid_format_and_distinct_witness:
  "build_per_player_per_point ex_player ex_points ex_passes ex_blocks ex_poss ''G'' = Inr (ex_rows, ex_ptsum) \<and>
   distinct (map pt_Point ex_points) \<and>
   distinct (map sm_point_uid ex_ptsum) \<and>
   map sm_point_uid ex_ptsum = [''G_P01'', ''G_P02'', ''G_P03''] \<and>
   map point_uid ex_rows = [''G_P01'', ''G_P03'', ''G_P03'', ''G_P02'', ''G_P03'']"
proof -
  have h1: "distinct (map pt_Point ex_points)" by code_simp
  have h2: "map sm_point_uid ex_ptsum = [''G_P01'', ''G_P02'', ''G_P03'']" by code_simp
  have h3: "map point_uid ex_rows = [''G_P01'', ''G_P03'', ''G_P03'', ''G_P02'', ''G_P03'']" by code_simp
  from point_uid_format_and_distinct [OF ex_build] h1
  have "distinct (map sm_point_uid ex_ptsum)" by blast
  with ex_build h1 h2 h3 show ?thesis by simp
qed









subsection \<open>The effect of one completed, assisted pass\<close>

lemma filled_action_stats:
  fixes df k
  defines "a \<equiv> find (\<lambda>a. action_key a = k) (aggregate_passes df)"
  shows "(case a of None \<Rightarrow> 0 | Some u \<Rightarrow> a_throws u) = count_notna pe_Thrower (thrown_by df k)"
    and "(case a of None \<Rightarrow> 0 | Some u \<Rightarrow> a_completions u) = count_eq pe_Turnover 0 (thrown_by df k)"
    and "(case a of None \<Rightarrow> 0 | Some u \<Rightarrow> a_assists u) = sum_list (map pe_Assist (thrown_by df k))"
    and "(case a of None \<Rightarrow> 0 | Some u \<Rightarrow> a_catches u) = count_notna pe_Receiver (caught_by df k)"
    and "(case a of None \<Rightarrow> 0 | Some u \<Rightarrow> a_goals u) = count_eq pe_Assist 1 (caught_by df k)"
proof -
  have t: "lookup (throws_table df) k = None \<and> thrown_by df k = [] \<or>
           lookup (throws_table df) k = Some (k, throw_stats_of (thrown_by df k))"
    by (auto simp: lookup_throws_table thrown_by_def filter_empty_conv)
  have c: "lookup (catches_table df) k = None \<and> caught_by df k = [] \<or>
           lookup (catches_table df) k = Some (k, catch_stats_of (caught_by df k))"
    by (auto simp: lookup_catches_table caught_by_def filter_empty_conv)
  show "(case a of None \<Rightarrow> 0 | Some u \<Rightarrow> a_throws u) = count_notna pe_Thrower (thrown_by df k)"
    using t c unfolding a_def lookup_aggregate_passes
    by (auto simp: action_of_def throw_stats_of_def count_notna_def)
  show "(case a of None \<Rightarrow> 0 | Some u \<Rightarrow> a_completions u) = count_eq pe_Turnover 0 (thrown_by df k)"
    using t c unfolding a_def lookup_aggregate_passes
    by (auto simp: action_of_def throw_stats_of_def count_eq_def)
  show "(case a of None \<Rightarrow> 0 | Some u \<Rightarrow> a_assists u) = sum_list (map pe_Assist (thrown_by df k))"
    using t c unfolding a_def lookup_aggregate_passes
    by (auto simp: action_of_def throw_stats_of_def)
  show "(case a of None \<Rightarrow> 0 | Some u \<Rightarrow> a_catches u) = count_notna pe_Receiver (caught_by df k)"
    using t c unfolding a_def lookup_aggregate_passes
    by (auto simp: action_of_def catch_stats_of_def count_notna_def)
  show "(case a of None \<Rightarrow> 0 | Some u \<Rightarrow> a_goals u) = count_eq pe_Assist 1 (caught_by df k)"
    using t c unfolding a_def lookup_aggregate_passes
    by (auto simp: action_of_def catch_stats_of_def count_eq_def)
qed

lemma left_merge_map:
  "left_merge kl kr (map h L) R = concat (map (\<lambda>l. map (Pair (h l)) (matches kr R (kl (h l)))) L)"
  by (simp add: left_merge_def comp_def)

lemma list_all2_concat_map:
  assumes "\<And>e m. e \<in> set L \<Longrightarrow> m \<in> set (N e) \<Longrightarrow> R (F e m) (F' e m)"
  shows "list_all2 R (concat (map (\<lambda>e. map (F e) (N e)) L)) (concat (map (\<lambda>e. map (F' e) (N e)) L))"
  using assms
proof (induction L)
  case Nil
  then show ?case by simp
next
  case (Cons a L)
  have "list_all2 R (map (F a) (N a)) (map (F' a) (N a))"
    using Cons.prems by (simp add: list_all2_map1 list_all2_map2 list_all2_same)
  moreover have "list_all2 R (concat (map (\<lambda>e. map (F e) (N e)) L)) (concat (map (\<lambda>e. map (F' e) (N e)) L))"
    using Cons by simp
  ultimately show ?case by (simp add: list_all2_appendI)
qed

lemma fact_rows_eq:
  "map (\<lambda>x. the (fact_row_of gid x))
     (left_merge pp_Point pc_Point (pp_table df_player df_passes df_blocks) ctx)
   = concat (map (\<lambda>e. map (\<lambda>m. the (fact_row_of gid
        (pp_row_of ((e, find (\<lambda>a. action_key a = roster_key e) (aggregate_passes df_passes)),
                     lookup (aggregate_blocks df_blocks) (roster_key e)), m)))
        (matches pc_Point ctx (r_Point e))) (expand_roster_from_player_stats df_player))"
  by (simp add: pp_table_eq left_merge_map map_concat comp_def pp_row_of_keys)

text \<open>
  Claim C8. Adding to the pass events one completed pass (turnover 0) from A to B on
  point \<open>p\<close> that is flagged as an assist changes the fact table row by row as follows:
  players and point keys stay; in the rows of A on \<open>p\<close> completions and assists grow
  by 1; in the rows of B on \<open>p\<close> goals grow by 1 and touches by 1 (by 2 if A is B, who
  then also threw); the catches aggregated for B on \<open>p\<close> grow by 1. The catching side
  is computed from the events of turnover 0 only.
\<close>

theorem completed_assist_event:
  assumes ev: "pe_Point ev = p" "pe_Thrower ev = Some A" "pe_Receiver ev = Some B"
      "pe_Turnover ev = 0" "pe_Assist ev = 1"
    and b: "build_per_player_per_point df_player df_points (xs @ ys) df_blocks df_poss gid = Inr (rows, ptsum)"
  shows "\<exists>rows'.
      build_per_player_per_point df_player df_points (xs @ ev # ys) df_blocks df_poss gid = Inr (rows', ptsum) \<and>
      list_all2 (\<lambda>r r'. player r' = player r \<and> point_uid r' = point_uid r \<and>
          (player r = Some A \<and> point_uid r = point_uid_of gid p \<longrightarrow>
             completions r' = completions r + 1 \<and> assists r' = assists r + 1) \<and>
          (player r = Some B \<and> point_uid r = point_uid_of gid p \<longrightarrow>
             goals r' = goals r + 1 \<and> touches r' = touches r + (if A = B then 2 else 1)))
        rows rows' \<and>
      catches_of (aggregate_passes (xs @ ev # ys)) (p, Some B)
        = catches_of (aggregate_passes (xs @ ys)) (p, Some B) + 1 \<and>
      catches_table df = catches_table (filter (\<lambda>e. pe_Turnover e = 0) df)"
proof -
  let ?roster = "expand_roster_from_player_stats df_player"
  let ?ctx = "build_point_context_with_possessions df_points df_poss"
  let ?h = "\<lambda>df e. pp_row_of ((e, find (\<lambda>a. action_key a = roster_key e) (aggregate_passes df)),
                          lookup (aggregate_blocks df_blocks) (roster_key e))"
  let ?F = "\<lambda>df e m. the (fact_row_of gid (?h df e, m))"
  let ?R = "\<lambda>r r'. player r' = player r \<and> point_uid r' = point_uid r \<and>
          (player r = Some A \<and> point_uid r = point_uid_of gid p \<longrightarrow>
             completions r' = completions r + 1 \<and> assists r' = assists r + 1) \<and>
          (player r = Some B \<and> point_uid r = point_uid_of gid p \<longrightarrow>
             goals r' = goals r + 1 \<and> touches r' = touches r + (if A = B then 2 else 1))"
  let ?rows' = "concat (map (\<lambda>e. map (?F (xs @ ev # ys) e) (matches pc_Point ?ctx (r_Point e))) ?roster)"
  from b have ok: "\<forall>e\<in>set ?roster. r_Point e \<in> pt_Point ` set df_points"
    and rows: "rows = concat (map (\<lambda>e. map (?F (xs @ ys) e) (matches pc_Point ?ctx (r_Point e))) ?roster)"
    and ptsum: "ptsum = map (summary_row_of gid) ?ctx"
    by (auto simp: build_eq fact_rows_eq split: if_splits)
  have b': "build_per_player_per_point df_player df_points (xs @ ev # ys) df_blocks df_poss gid = Inr (?rows', ptsum)"
    using ok by (simp add: build_eq fact_rows_eq ptsum)
  have pts: "pc_Point ` set ?ctx = pt_Point ` set df_points"
    using context_points [of df_points df_poss] by (metis set_map)
  have thrown: "thrown_by (xs @ ev # ys) k =
      thrown_by xs k @ (if k = (p, Some A) then [ev] else []) @ thrown_by ys k" for k
    using ev by (auto simp: thrown_by_def)
  have caught: "caught_by (xs @ ev # ys) k =
      caught_by xs k @ (if k = (p, Some B) then [ev] else []) @ caught_by ys k" for k
    using ev by (auto simp: caught_by_def)
  have thrown0: "thrown_by (xs @ ys) k = thrown_by xs k @ thrown_by ys k" for k
    by (simp add: thrown_by_def)
  have caught0: "caught_by (xs @ ys) k = caught_by xs k @ caught_by ys k" for k
    by (simp add: caught_by_def)
  have rel: "?R (?F (xs @ ys) e m) (?F (xs @ ev # ys) e m)"
    if e: "e \<in> set ?roster" and m: "m \<in> set (matches pc_Point ?ctx (r_Point e))" for e m
  proof -
    from ok e have "r_Point e \<in> pc_Point ` set ?ctx" by (simp add: pts)
    with m have "m \<noteq> None" by (intro matches_not_None [of "r_Point e" pc_Point ?ctx m])
    then obtain c where c: "m = Some c" by auto
    have f0: "fact_row_of gid (?h (xs @ ys) e, Some c) = Some (?F (xs @ ys) e (Some c))"
      by (simp add: fact_row_of_def)
    have f1: "fact_row_of gid (?h (xs @ ev # ys) e, Some c) = Some (?F (xs @ ev # ys) e (Some c))"
      by (simp add: fact_row_of_def)
    note flds0 = fact_row_fields [OF f0]
    note flds1 = fact_row_fields [OF f1]
    have key: "roster_key e = (p, Some X)"
      if "player (?F (xs @ ys) e (Some c)) = Some X" "point_uid (?F (xs @ ys) e (Some c)) = point_uid_of gid p" for X
    proof -
      from that(1) have "r_Player e = Some X" by (simp add: flds0(1) pp_row_of_keys)
      moreover from that(2) have "r_Point e = p"
        using point_uid_of_inject [of gid "r_Point e" p] by (simp add: flds0(2) pp_row_of_keys)
      ultimately show ?thesis by (simp add: roster_key_def)
    qed
    have same: "player (?F (xs @ ev # ys) e (Some c)) = player (?F (xs @ ys) e (Some c))"
      "point_uid (?F (xs @ ev # ys) e (Some c)) = point_uid (?F (xs @ ys) e (Some c))"
      by (simp_all add: flds0(1,2) flds1(1,2) pp_row_of_keys)
    have st: "completions (?F df e (Some c)) = count_eq pe_Turnover 0 (thrown_by df (roster_key e))"
        "assists (?F df e (Some c)) = sum_list (map pe_Assist (thrown_by df (roster_key e)))"
        "goals (?F df e (Some c)) = count_eq pe_Assist 1 (caught_by df (roster_key e))"
        "touches (?F df e (Some c)) = count_notna pe_Thrower (thrown_by df (roster_key e))
            + count_notna pe_Receiver (caught_by df (roster_key e))" for df
      by (simp_all add: fact_row_of_def pp_row_of_fields filled_action_stats)
    have thrower: "completions (?F (xs @ ev # ys) e (Some c)) = completions (?F (xs @ ys) e (Some c)) + 1 \<and>
        assists (?F (xs @ ev # ys) e (Some c)) = assists (?F (xs @ ys) e (Some c)) + 1"
      if "roster_key e = (p, Some A)"
      using st(1,2) [of "xs @ ev # ys"] st(1,2) [of "xs @ ys"] ev
      by (simp add: that thrown thrown0 count_eq_def)
    have receiver: "goals (?F (xs @ ev # ys) e (Some c)) = goals (?F (xs @ ys) e (Some c)) + 1 \<and>
        touches (?F (xs @ ev # ys) e (Some c)) = touches (?F (xs @ ys) e (Some c)) + (if A = B then 2 else 1)"
      if "roster_key e = (p, Some B)"
      using st(3,4) [of "xs @ ev # ys"] st(3,4) [of "xs @ ys"] ev
      by (simp add: that thrown thrown0 caught caught0 count_eq_def count_notna_def)
    show ?thesis
      unfolding c using same key thrower receiver by blast
  qed
  have "list_all2 ?R rows ?rows'"
    unfolding rows by (rule list_all2_concat_map) (rule rel)
  moreover have "catches_of (aggregate_passes (xs @ ev # ys)) (p, Some B)
        = catches_of (aggregate_passes (xs @ ys)) (p, Some B) + 1"
    using ev by (simp add: catches_of_def filled_action_stats caught caught0 count_notna_def)
  moreover have "catches_table df = catches_table (filter (\<lambda>e. pe_Turnover e = 0) df)"
    by (simp add: catches_table_def)
  ultimately show ?thesis using b' by blast
qed

theorem completed_assist_event_witness:
  "pe_Point (ex_pass 3 (Some ''A'') (Some ''B'') 0 1) = 3 \<and>
   pe_Thrower (ex_pass 3 (Some ''A'') (Some ''B'') 0 1) = Some ''A'' \<and>
   pe_Receiver (ex_pass 3 (Some ''A'') (Some ''B'') 0 1) = Some ''B'' \<and>
   pe_Turnover (ex_pass 3 (Some ''A'') (Some ''B'') 0 1) = 0 \<and>
   pe_Assist (ex_pass 3 (Some ''A'') (Some ''B'') 0 1) = 1 \<and>
   ex_passes = [ex_pass 3 (Some ''B'') (Some ''A'') 0 0] @ ex_pass 3 (Some ''A'') (Some ''B'') 0 1
                 # [ex_pass 3 (Some ''A'') None 1 0] \<and>
   (\<exists>rows. build_per_player_per_point ex_player ex_points
       ([ex_pass 3 (Some ''B'') (Some ''A'') 0 0] @ [ex_pass 3 (Some ''A'') None 1 0])
       ex_blocks ex_poss ''G'' = Inr (rows, ex_ptsum) \<and>
     list_all2 (\<lambda>r r'. player r' = player r \<and> point_uid r' = point_uid r \<and>
          (player r = Some ''A'' \<and> point_uid r = point_uid_of ''G'' 3 \<longrightarrow>
             completions r' = completions r + 1 \<and> assists r' = assists r + 1) \<and>
          (player r = Some ''B'' \<and> point_uid r = point_uid_of ''G'' 3 \<longrightarrow>
             goals r' = goals r + 1 \<and> touches r' = touches r + (if ''A'' = ''B'' then 2 else 1)))
        rows ex_rows) \<and>
   completions (ex_rows ! 1) = 1 \<and> assists (ex_rows ! 1) = 1 \<and> goals (ex_rows ! 2) = 1 \<and>
   touches (ex_rows ! 2) = 2"
proof -
  let ?ev = "ex_pass 3 (Some ''A'') (Some ''B'') 0 1"
  let ?xs = "[ex_pass 3 (Some ''B'') (Some ''A'') 0 0]"
  let ?ys = "[ex_pass 3 (Some ''A'') None 1 0]"
  have e1: "pe_Point ?ev = 3" by code_simp
  have e2: "pe_Thrower ?ev = Some ''A''" by code_simp
  have e3: "pe_Receiver ?ev = Some ''B''" by code_simp
  have e4: "pe_Turnover ?ev = 0" by code_simp
  have e5: "pe_Assist ?ev = 1" by code_simp
  have ps: "ex_passes = ?xs @ ?ev # ?ys" by code_simp
  obtain rows where b: "build_per_player_per_point ex_player ex_points (?xs @ ?ys) ex_blocks ex_poss ''G''
       = Inr (rows, ex_ptsum)"
    using ex_build by (auto simp: build_eq split: if_splits)
  from completed_assist_event [OF e1 e2 e3 e4 e5 b]
  have "list_all2 (\<lambda>r r'. player r' = player r \<and> point_uid r' = point_uid r \<and>
          (player r = Some ''A'' \<and> point_uid r = point_uid_of ''G'' 3 \<longrightarrow>
             completions r' = completions r + 1 \<and> assists r' = assists r + 1) \<and>
          (player r = Some ''B'' \<and> point_uid r = point_uid_of ''G'' 3 \<longrightarrow>
             goals r' = goals r + 1 \<and> touches r' = touches r + (if ''A'' = ''B'' then 2 else 1)))
        rows ex_rows"
    using ex_build unfolding ps by auto
  with b have ex: "\<exists>rows. build_per_player_per_point ex_player ex_points (?xs @ ?ys) ex_blocks ex_poss ''G''
       = Inr (rows, ex_ptsum) \<and>
     list_all2 (\<lambda>r r'. player r' = player r \<and> point_uid r' = point_uid r \<and>
          (player r = Some ''A'' \<and> point_uid r = point_uid_of ''G'' 3 \<longrightarrow>
             completions r' = completions r + 1 \<and> assists r' = assists r + 1) \<and>
          (player r = Some ''B'' \<and> point_uid r = point_uid_of ''G'' 3 \<longrightarrow>
             goals r' = goals r + 1 \<and> touches r' = touches r + (if ''A'' = ''B'' then 2 else 1)))
        rows ex_rows" by blast
  have v: "completions (ex_rows ! 1) = 1 \<and> assists (ex_rows ! 1) = 1 \<and> goals (ex_rows ! 2) = 1 \<and>
   touches (ex_rows ! 2) = 2" by code_simp
  from e1 e2 e3 e4 e5 ps ex v show ?thesis by blast
qed

end
